theory Spec2Isabelle
  imports Main
begin

section \<open>Strings and numbers as the client uses them\<close>

text \<open>
  Strings are lists of characters, and a character of the model stands for one code unit
  of the source string; the model's strings range over the units below 256. Where text
  is put into a URL, the platform first writes it out as UTF-8 bytes (\<open>utf8_of\<close>
  below); for ASCII text the two are the same. A JavaScript number that comes out of \<open>parseInt\<close> is a natural number or
  \<open>NaN\<close>; it is modelled as \<open>nat option\<close> with \<open>None\<close> for \<open>NaN\<close>.
\<close>

type_synonym number = "nat option"

definition is_digit :: "char \<Rightarrow> bool" where
  "is_digit c = (48 \<le> (of_char c :: nat) \<and> (of_char c :: nat) \<le> 57)"

definition digit_val :: "char \<Rightarrow> nat" where
  "digit_val c = of_char c - 48"

definition digit_of :: "nat \<Rightarrow> char" where
  "digit_of d = char_of (48 + d)"

text \<open>Decimal rendering of a number inside a template literal.\<close>

function show_nat :: "nat \<Rightarrow> string" where
  "show_nat n = (if n < 10 then [digit_of n] else show_nat (n div 10) @ [digit_of (n mod 10)])"
  by pat_completeness auto
termination
  by (relation "measure id") auto

declare show_nat.simps [simp del]

definition show_number :: "number \<Rightarrow> string" where
  "show_number x = (case x of None \<Rightarrow> ''NaN'' | Some n \<Rightarrow> show_nat n)"

text \<open>\<open>s.substring(a, b)\<close> for \<open>a \<le> b\<close>; both indices are clamped to the length.\<close>

definition substring :: "nat \<Rightarrow> nat \<Rightarrow> string \<Rightarrow> string" where
  "substring a b s = take (b - a) (drop a s)"

text \<open>
  \<open>parseInt(s, 10)\<close> on the strings the client passes (substrings of a token that has
  already matched the digit pattern): the longest prefix of decimal digits is read,
  and the result is \<open>NaN\<close> when that prefix is empty.
\<close>

definition parseInt :: "string \<Rightarrow> number" where
  "parseInt s =
     (let ds = takeWhile is_digit s
      in if ds = [] then None else Some (foldl (\<lambda>a c. 10 * a + digit_val c) 0 ds))"

text \<open>Comparisons with \<open>NaN\<close> are false.\<close>

definition js_lt :: "number \<Rightarrow> nat \<Rightarrow> bool" where
  "js_lt x n = (case x of None \<Rightarrow> False | Some m \<Rightarrow> m < n)"

definition js_gt :: "number \<Rightarrow> nat \<Rightarrow> bool" where
  "js_gt x n = (case x of None \<Rightarrow> False | Some m \<Rightarrow> n < m)"

text \<open>The pattern \<open>/^\d{8}$/\<close>: the whole string is exactly eight ASCII digits.\<close>

definition matches_8_digits :: "string \<Rightarrow> bool" where
  "matches_8_digits s = (length s = 8 \<and> list_all is_digit s)"


section \<open>Errors\<close>

text \<open>
  Every \<open>throw new Error(...)\<close> of the client is a constructor of \<open>error\<close>, carrying the
  values its message interpolates; \<open>message\<close> rebuilds the text of the source.
\<close>

datatype cred_field = Email | Key

datatype date_part = Month | Day | Year

record header =
  status :: string
  request_time :: string
  url :: string
  rows :: "nat option"

datatype fault =
    HttpStatus nat string
  | ApiError header
  | FetchFailed string
  | BodyNotJson string

datatype error =
    MissingCredential cred_field
  | InvalidDateFormat string string
  | InvalidDateValue string date_part number
  | CrossYearRange string string
  | TransportError fault

definition validateDateRange :: "string \<Rightarrow> string \<Rightarrow> error + unit" where
  "validateDateRange bdate edate =
     (let beginYear = substring 0 4 bdate;
          endYear = substring 0 4 edate
      in if beginYear \<noteq> endYear then Inl (CrossYearRange bdate edate) else Inr ())"

definition validateDateFormat :: "string \<Rightarrow> string \<Rightarrow> error + unit" where
  "validateDateFormat date fieldName =
     (if \<not> matches_8_digits date then Inl (InvalidDateFormat fieldName date)
      else
        let year = parseInt (substring 0 4 date);
            month = parseInt (substring 4 6 date);
            day = parseInt (substring 6 8 date)
        in if js_lt month 1 \<or> js_gt month 12 then Inl (InvalidDateValue fieldName Month month)
           else if js_lt day 1 \<or> js_gt day 31 then Inl (InvalidDateValue fieldName Day day)
           else if js_lt year 1900 \<or> js_gt year 2100 then Inl (InvalidDateValue fieldName Year year)
           else Inr ())"


definition part_name :: "date_part \<Rightarrow> string" where
  "part_name p = (case p of Month \<Rightarrow> ''month'' | Day \<Rightarrow> ''day'' | Year \<Rightarrow> ''year'')"

text \<open>
  The text of the inner error that \<open>aqs\<close> catches and wraps. \<open>js\<close> stands for
  \<open>JSON.stringify\<close> on a header object.
\<close>

definition fault_message :: "(header \<Rightarrow> string) \<Rightarrow> fault \<Rightarrow> string" where
  "fault_message js f =
     (case f of
        HttpStatus code phrase \<Rightarrow> ''HTTP '' @ show_nat code @ '': '' @ phrase
      | ApiError h \<Rightarrow> ''AQS API Error: '' @ js h
      | FetchFailed m \<Rightarrow> m
      | BodyNotJson m \<Rightarrow> m)"

definition message :: "(header \<Rightarrow> string) \<Rightarrow> error \<Rightarrow> string" where
  "message js e =
     (case e of
        MissingCredential Email \<Rightarrow>
          ''Email is required. Provide it as a parameter or set AQS_EMAIL environment variable.''
      | MissingCredential Key \<Rightarrow>
          ''API key is required. Provide it as a parameter or set AQS_API_KEY environment variable.''
      | InvalidDateFormat fieldName date \<Rightarrow>
          fieldName @ '' must be in YYYYMMDD format. Got: '' @ date
      | InvalidDateValue fieldName part n \<Rightarrow>
          fieldName @ '' has invalid '' @ part_name part @ '': '' @ show_number n
      | CrossYearRange bdate edate \<Rightarrow>
          ''Begin date ('' @ bdate @ '') and end date ('' @ edate @
          '') must be in the same calendar year. Got years '' @
          substring 0 4 bdate @ '' and '' @ substring 0 4 edate @ ''.''
      | TransportError f \<Rightarrow> ''AQS API request failed: '' @ fault_message js f)"


section \<open>The outside of the process\<close>

text \<open>
  The response envelope of the upstream API. The client guards the header with
  \<open>data.Header && ...\<close>, so a missing header array is \<open>None\<close>.
\<close>

record 'a envelope =
  Header :: "header list option"
  Data :: "'a list"

text \<open>
  What \<open>fetch\<close> delivers: the promise rejects, or it resolves to a response with a status
  line and a body that \<open>response.json()\<close> parses or rejects.
\<close>

datatype 'a body = Json "'a envelope" | NotJson string

record 'a response =
  status_code :: nat
  statusText :: string
  body :: "'a body"

datatype 'a fetch_result = Rejected string | Responded "'a response"

text \<open>\<open>response.ok\<close> is true exactly for the statuses 200 to 299.\<close>

definition ok :: "'a response \<Rightarrow> bool" where
  "ok r = (200 \<le> status_code r \<and> status_code r \<le> 299)"

text \<open>
  Everything the process takes from outside: the two environment variables, the
  behaviour of the remote server, how late a timer fires, how long a round trip lasts,
  and the texts of \<open>JSON.stringify\<close> and of the tools' formatting functions
  (\<open>formatResponse\<close>, \<open>formatMonitorResponse\<close>, \<open>formatSampleDataResponse\<close>), whose JSON
  layout is not modelled: \<open>format_reply endpoint response\<close> is the text the tool of that
  endpoint builds from a response.
\<close>

record 'a platform =
  AQS_EMAIL :: "string option"
  AQS_API_KEY :: "string option"
  fetch :: "string \<Rightarrow> 'a fetch_result"
  timer_late :: nat
  round_trip :: nat
  header_json :: "header \<Rightarrow> string"
  envelope_json :: "'a envelope \<Rightarrow> string"
  format_reply :: "string \<Rightarrow> 'a envelope \<Rightarrow> string"

text \<open>
  The state of the process: the clock that \<open>Date.now()\<close> reads (milliseconds), the
  module variable \<open>lastRequestTime\<close>, the URLs handed to \<open>fetch\<close> (oldest first) and
  the lines written with \<open>console.error\<close>.
\<close>

record world =
  clock :: int
  lastRequestTime :: int
  requests :: "string list"
  stderr :: "string list"

definition initial_world :: "int \<Rightarrow> world" where
  "initial_world start = \<lparr>clock = start, lastRequestTime = 0, requests = [], stderr = []\<rparr>"

definition console_error :: "string \<Rightarrow> world \<Rightarrow> world" where
  "console_error line w = w\<lparr>stderr := stderr w @ [line]\<rparr>"

text \<open>Time that passes while the process is idle or waits for the network.\<close>

definition pass :: "nat \<Rightarrow> world \<Rightarrow> world" where
  "pass ms w = w\<lparr>clock := clock w + int ms\<rparr>"


section \<open>The rate-limit gate\<close>

definition RATE_LIMIT_MS :: int where
  "RATE_LIMIT_MS = 5000"

definition show_int :: "int \<Rightarrow> string" where
  "show_int i = (if i < 0 then ''-'' @ show_nat (nat (- i)) else show_nat (nat i))"

text \<open>
  \<open>sleep(ms)\<close> resolves through \<open>setTimeout\<close>: the caller resumes once \<open>ms\<close> milliseconds
  have passed, and \<open>late\<close> further milliseconds after that. Synchronous code takes no
  time: the clock moves only in \<open>sleep\<close>, while a request is under way and while the
  process is idle.
\<close>

definition sleep :: "int \<Rightarrow> nat \<Rightarrow> world \<Rightarrow> world" where
  "sleep ms late w = w\<lparr>clock := clock w + ms + int late\<rparr>"

definition enforceRateLimit :: "nat \<Rightarrow> world \<Rightarrow> world" where
  "enforceRateLimit late w =
     (let now = clock w;
          timeSinceLastRequest = now - lastRequestTime w;
          w1 = (if timeSinceLastRequest < RATE_LIMIT_MS \<and> lastRequestTime w > 0
                then let waitTime = RATE_LIMIT_MS - timeSinceLastRequest
                     in sleep waitTime late
                          (console_error
                             (''[AQS] Rate limiting: waiting '' @ show_int waitTime @
                              ''ms before next request'') w)
                else w)
      in w1\<lparr>lastRequestTime := clock w1\<rparr>)"




section \<open>Credentials\<close>

text \<open>A value is truthy when it is neither \<open>undefined\<close> nor the empty string.\<close>

definition truthy :: "string option \<Rightarrow> bool" where
  "truthy v = (case v of None \<Rightarrow> False | Some s \<Rightarrow> s \<noteq> [])"

text \<open>\<open>a || b\<close> on optional strings.\<close>

definition js_or :: "string option \<Rightarrow> string option \<Rightarrow> string option" where
  "js_or a b = (if truthy a then a else b)"

definition getDefaultCredentials :: "'a platform \<Rightarrow> string option \<times> string option" where
  "getDefaultCredentials p = (AQS_EMAIL p, AQS_API_KEY p)"

definition resolveCredentials ::
  "'a platform \<Rightarrow> string option \<Rightarrow> string option \<Rightarrow> error + (string \<times> string)" where
  "resolveCredentials p providedEmail providedKey =
     (let defaults = getDefaultCredentials p;
          email = js_or providedEmail (fst defaults);
          key = js_or providedKey (snd defaults)
      in case email of
           None \<Rightarrow> Inl (MissingCredential Email)
         | Some e \<Rightarrow>
             if e = [] then Inl (MissingCredential Email)
             else (case key of
                     None \<Rightarrow> Inl (MissingCredential Key)
                   | Some k \<Rightarrow>
                       if k = [] then Inl (MissingCredential Key) else Inr (e, k)))"

section \<open>Building the request URL\<close>

definition AQS_BASE_URL :: string where
  "AQS_BASE_URL = ''https://aqs.epa.gov/data/api''"

subsection \<open>Percent-encoding and form-encoded text\<close>

definition is_alnum :: "char \<Rightarrow> bool" where
  "is_alnum c =
     (let n = (of_char c :: nat)
      in (48 \<le> n \<and> n \<le> 57) \<or> (65 \<le> n \<and> n \<le> 90) \<or> (97 \<le> n \<and> n \<le> 122))"

definition hex_digit :: "nat \<Rightarrow> char" where
  "hex_digit n = (if n < 10 then char_of (48 + n) else char_of (55 + n))"

definition is_hex :: "char \<Rightarrow> bool" where
  "is_hex c =
     (let n = (of_char c :: nat)
      in (48 \<le> n \<and> n \<le> 57) \<or> (65 \<le> n \<and> n \<le> 70) \<or> (97 \<le> n \<and> n \<le> 102))"

definition hex_val :: "char \<Rightarrow> nat" where
  "hex_val c =
     (let n = (of_char c :: nat)
      in if n \<le> 57 then n - 48 else if n \<le> 70 then n - 55 else n - 87)"

text \<open>One byte as \<open>%XX\<close>, with upper-case hexadecimal digits.\<close>

definition percent :: "char \<Rightarrow> string" where
  "percent c = [CHR ''%'', hex_digit (of_char c div 16), hex_digit (of_char c mod 16)]"

text \<open>
  The UTF-8 bytes of a string: a unit below 128 is one byte, a unit from 128 to 255 is
  two.
\<close>

definition utf8_of_unit :: "char \<Rightarrow> string" where
  "utf8_of_unit c =
     (if (of_char c :: nat) < 128 then [c]
      else [char_of (0xC0 + (of_char c :: nat) div 64), char_of (0x80 + (of_char c :: nat) mod 64)])"

definition utf8_of :: "string \<Rightarrow> string" where
  "utf8_of s = concat (map utf8_of_unit s)"

text \<open>
  The \<open>application/x-www-form-urlencoded\<close> serialiser, on the UTF-8 bytes of a name or
  value: letters, digits and \<open>* - . _\<close> stay, a space becomes \<open>+\<close>, every other byte
  becomes \<open>%XX\<close>.
\<close>

definition urlencode_char :: "char \<Rightarrow> string" where
  "urlencode_char c =
     (if is_alnum c \<or> c \<in> set ''*-._'' then [c]
      else if c = CHR '' '' then ''+''
      else percent c)"

definition urlencode :: "string \<Rightarrow> string" where
  "urlencode s = concat (map urlencode_char s)"

fun join_amp :: "string list \<Rightarrow> string" where
  "join_amp [] = []"
| "join_amp [x] = x"
| "join_amp (x # y # ys) = x @ ''&'' @ join_amp (y # ys)"

definition query_piece :: "string \<times> string \<Rightarrow> string" where
  "query_piece kv = (case kv of (k, v) \<Rightarrow> urlencode k @ ''='' @ urlencode v)"

definition serialize_query :: "(string \<times> string) list \<Rightarrow> string" where
  "serialize_query ps = join_amp (map query_piece ps)"

text \<open>
  The form-encoded text read back: split at \<open>&\<close>, empty pieces dropped, each piece split
  at its first \<open>=\<close>, \<open>+\<close> read as a space and \<open>%XX\<close> as a byte.
\<close>

function urldecode :: "string \<Rightarrow> string" where
  "urldecode [] = []"
| "urldecode (c # cs) =
     (if c = CHR ''+'' then CHR '' '' # urldecode cs
      else if c = CHR ''%'' \<and> 2 \<le> length cs \<and> is_hex (cs ! 0) \<and> is_hex (cs ! 1)
        then char_of (16 * hex_val (cs ! 0) + hex_val (cs ! 1)) # urldecode (drop 2 cs)
      else c # urldecode cs)"
  by pat_completeness auto
termination
  by (relation "measure length") auto

fun split_amp :: "string \<Rightarrow> string list" where
  "split_amp [] = [[]]"
| "split_amp (c # cs) =
     (if c = CHR ''&'' then [] # split_amp cs
      else (case split_amp cs of [] \<Rightarrow> [[c]] | x # xs \<Rightarrow> (c # x) # xs))"

definition parse_pair :: "string \<Rightarrow> string \<times> string" where
  "parse_pair piece =
     (urldecode (takeWhile (\<lambda>c. c \<noteq> CHR ''='') piece),
      urldecode (drop 1 (dropWhile (\<lambda>c. c \<noteq> CHR ''='') piece)))"

text \<open>
  Decoding bytes as UTF-8 the way the platform does, with replacement: a well-formed
  sequence is kept, and each maximal ill-formed part becomes U+FFFD (the bytes
  \<open>EF BF BD\<close>). \<open>utf8_lead\<close> gives, for the first byte of a sequence, the number of
  bytes that must follow and the range allowed for the next one.
\<close>

definition utf8_replacement :: string where
  "utf8_replacement = [CHR 0xEF, CHR 0xBF, CHR 0xBD]"

definition utf8_lead :: "nat \<Rightarrow> (nat \<times> nat \<times> nat) option" where
  "utf8_lead b =
     (if 0xC2 \<le> b \<and> b \<le> 0xDF then Some (1, 0x80, 0xBF)
      else if b = 0xE0 then Some (2, 0xA0, 0xBF)
      else if b = 0xED then Some (2, 0x80, 0x9F)
      else if 0xE1 \<le> b \<and> b \<le> 0xEF then Some (2, 0x80, 0xBF)
      else if b = 0xF0 then Some (3, 0x90, 0xBF)
      else if b = 0xF4 then Some (3, 0x80, 0x8F)
      else if 0xF1 \<le> b \<and> b \<le> 0xF3 then Some (3, 0x80, 0xBF)
      else None)"

function utf8_scan :: "string \<Rightarrow> nat \<Rightarrow> nat \<Rightarrow> nat \<Rightarrow> string \<Rightarrow> string" where
  "utf8_scan seen needed lo hi [] = (if needed = 0 then [] else utf8_replacement)"
| "utf8_scan seen needed lo hi (c # cs) =
     (if needed = 0 then
        (if (of_char c :: nat) \<le> 0x7F then c # utf8_scan [] 0 0x80 0xBF cs
         else (case utf8_lead (of_char c) of
                 None \<Rightarrow> utf8_replacement @ utf8_scan [] 0 0x80 0xBF cs
               | Some (n, l, h) \<Rightarrow> utf8_scan [c] n l h cs))
      else if (of_char c :: nat) < lo \<or> hi < (of_char c :: nat)
        then utf8_replacement @ utf8_scan [] 0 0x80 0xBF (c # cs)
      else if needed = 1 then seen @ [c] @ utf8_scan [] 0 0x80 0xBF cs
      else utf8_scan (seen @ [c]) (needed - 1) 0x80 0xBF cs)"
  by pat_completeness auto
termination
  by (relation "measure (\<lambda>(seen, needed, lo, hi, s). 2 * length s + (if needed = 0 then 0 else 1))")
     auto

definition utf8_decode :: "string \<Rightarrow> string" where
  "utf8_decode s = utf8_scan [] 0 0x80 0xBF s"

text \<open>The list a \<open>URLSearchParams\<close> object starts with, parsed from the query of its URL.\<close>

definition parse_urlencoded :: "string \<Rightarrow> (string \<times> string) list" where
  "parse_urlencoded q =
     map (\<lambda>piece. case parse_pair piece of (k, v) \<Rightarrow> (utf8_decode k, utf8_decode v))
       (filter (\<lambda>piece. piece \<noteq> []) (split_amp q))"

subsection \<open>The URL parser behind the origin\<close>

text \<open>
  \<open>new URL(s)\<close> for the strings the client builds, which all begin with the origin
  \<open>https://aqs.epa.gov\<close>: scheme and host are fixed, and the UTF-8 bytes of the text
  behind them are parsed into path segments, query and fragment as the URL Standard
  prescribes for a special scheme. The record keeps path, query and fragment as they are
  printed, and the names and values of \<open>searchParams\<close> in their UTF-8 bytes. Control characters and spaces at the ends of the input are stripped, tabs and
  newlines are removed; the first \<open>#\<close> starts the fragment and the first \<open>?\<close> before it
  the query; the path is cut at \<open>/\<close> and \<open>\\<close>, its segments are percent-encoded, a
  segment \<open>.\<close> is dropped and a segment \<open>..\<close> removes the segment before it.
\<close>

definition AQS_ORIGIN :: string where
  "AQS_ORIGIN = ''https://aqs.epa.gov''"

record URL =
  path :: "string list"
  query :: "string option"
  fragment :: "string option"
  searchParams :: "(string \<times> string) list"

definition c0_or_space :: "char \<Rightarrow> bool" where
  "c0_or_space c = ((of_char c :: nat) \<le> 0x20)"

definition tab_or_newline :: "char \<Rightarrow> bool" where
  "tab_or_newline c = (c = CHR 0x09 \<or> c = CHR 0x0A \<or> c = CHR 0x0D)"

definition clean_input :: "string \<Rightarrow> string" where
  "clean_input s =
     filter (\<lambda>c. \<not> tab_or_newline c)
       (rev (dropWhile c0_or_space (rev (dropWhile c0_or_space s))))"

text \<open>The percent-encode sets of the URL Standard, as predicates on bytes.\<close>

definition in_c0_control_set :: "char \<Rightarrow> bool" where
  "in_c0_control_set c = ((of_char c :: nat) \<le> 0x1F \<or> 0x7E < (of_char c :: nat))"

definition in_query_set :: "char \<Rightarrow> bool" where
  "in_query_set c =
     (in_c0_control_set c \<or> c = CHR 0x20 \<or> c = CHR 0x22 \<or> c = CHR 0x23 \<or> c = CHR 0x3C
      \<or> c = CHR 0x3E)"

definition in_special_query_set :: "char \<Rightarrow> bool" where
  "in_special_query_set c = (in_query_set c \<or> c = CHR 0x27)"

definition in_path_set :: "char \<Rightarrow> bool" where
  "in_path_set c =
     (in_query_set c \<or> c = CHR 0x3F \<or> c = CHR 0x5E \<or> c = CHR 0x60 \<or> c = CHR 0x7B
      \<or> c = CHR 0x7D)"

definition in_fragment_set :: "char \<Rightarrow> bool" where
  "in_fragment_set c =
     (in_c0_control_set c \<or> c = CHR 0x20 \<or> c = CHR 0x22 \<or> c = CHR 0x3C \<or> c = CHR 0x3E
      \<or> c = CHR 0x60)"

definition percent_encode :: "(char \<Rightarrow> bool) \<Rightarrow> string \<Rightarrow> string" where
  "percent_encode in_set s = concat (map (\<lambda>c. if in_set c then percent c else [c]) s)"

definition lower_ascii :: "string \<Rightarrow> string" where
  "lower_ascii s =
     map (\<lambda>c. if 65 \<le> (of_char c :: nat) \<and> (of_char c :: nat) \<le> 90
               then char_of ((of_char c :: nat) + 32) else c) s"

definition single_dot :: "string \<Rightarrow> bool" where
  "single_dot seg = (lower_ascii seg = ''.'' \<or> lower_ascii seg = ''%2e'')"

definition double_dot :: "string \<Rightarrow> bool" where
  "double_dot seg =
     (lower_ascii seg = ''..'' \<or> lower_ascii seg = ''.%2e'' \<or> lower_ascii seg = ''%2e.''
      \<or> lower_ascii seg = ''%2e%2e'')"

fun split_path :: "string \<Rightarrow> string list" where
  "split_path [] = [[]]"
| "split_path (c # cs) =
     (if c = CHR ''/'' \<or> c = CHR 0x5C then [] # split_path cs
      else (case split_path cs of [] \<Rightarrow> [[c]] | x # xs \<Rightarrow> (c # x) # xs))"

text \<open>
  The path state: the encoded pieces between the separators are taken in order. A
  double-dot piece shortens the path, a single-dot piece adds nothing, and either leaves
  an empty last segment when it ends the path.
\<close>

fun walk_path :: "string list \<Rightarrow> string list \<Rightarrow> string list" where
  "walk_path [] p = p"
| "walk_path (b # rest) p =
     (if double_dot b then walk_path rest (if rest = [] then butlast p @ [[]] else butlast p)
      else if single_dot b then walk_path rest (if rest = [] then p @ [[]] else p)
      else walk_path rest (p @ [b]))"

definition parse_path :: "string \<Rightarrow> string list" where
  "parse_path t =
     walk_path
       (map (percent_encode in_path_set)
          (case t of
             [] \<Rightarrow> [[]]
           | c # cs \<Rightarrow> if c = CHR ''/'' \<or> c = CHR 0x5C then split_path cs else split_path t))
       []"

definition URL_new :: "string \<Rightarrow> URL" where
  "URL_new s =
     (let t = drop (length AQS_ORIGIN) (clean_input (utf8_of s));
          before_hash = takeWhile (\<lambda>c. c \<noteq> CHR ''#'') t;
          q = (if CHR ''?'' \<in> set before_hash
               then Some (percent_encode in_special_query_set
                            (drop 1 (dropWhile (\<lambda>c. c \<noteq> CHR ''?'') before_hash)))
               else None)
      in \<lparr>path = parse_path (takeWhile (\<lambda>c. c \<noteq> CHR ''?'') before_hash),
          query = q,
          fragment = (if CHR ''#'' \<in> set t
                      then Some (percent_encode in_fragment_set
                                   (drop 1 (dropWhile (\<lambda>c. c \<noteq> CHR ''#'') t)))
                      else None),
          searchParams = (case q of None \<Rightarrow> [] | Some qs \<Rightarrow> parse_urlencoded qs)\<rparr>)"

text \<open>
  \<open>url.searchParams.append(k, v)\<close>: the pair joins the list, and the query of the URL
  becomes the serialised list.
\<close>

definition searchParams_append :: "string \<Rightarrow> string \<Rightarrow> URL \<Rightarrow> URL" where
  "searchParams_append k v u =
     (let l = searchParams u @ [(utf8_of k, utf8_of v)];
          serialized = serialize_query l
      in u\<lparr>searchParams := l, query := (if serialized = [] then None else Some serialized)\<rparr>)"

definition URL_toString :: "URL \<Rightarrow> string" where
  "URL_toString u =
     AQS_ORIGIN @ concat (map (\<lambda>seg. CHR ''/'' # seg) (path u))
       @ (case query u of None \<Rightarrow> [] | Some q \<Rightarrow> CHR ''?'' # q)
       @ (case fragment u of None \<Rightarrow> [] | Some f \<Rightarrow> CHR ''#'' # f)"

subsection \<open>buildUrl\<close>

text \<open>
  \<open>params\<close> is \<open>Object.entries\<close> of the parameter object, in insertion order; a value that
  is \<open>undefined\<close> or \<open>null\<close> is \<open>None\<close>.
\<close>

type_synonym params = "(string \<times> string option) list"

definition buildUrl :: "string \<Rightarrow> params \<Rightarrow> string" where
  "buildUrl endpoint params =
     URL_toString
       (foldl (\<lambda>u (key, value).
                 case value of
                   None \<Rightarrow> u
                 | Some v \<Rightarrow> if v \<noteq> [] then searchParams_append key v u else u)
              (URL_new (AQS_BASE_URL @ ''/'' @ endpoint)) params)"


section \<open>The transport\<close>

text \<open>
  \<open>aqs\<close>: pass the gate, build the URL, log the endpoint, fetch, classify the response.
  Every error raised inside the \<open>try\<close> block is an \<open>Error\<close> object and leaves wrapped as
  a transport error.
\<close>

definition classify :: "'a fetch_result \<Rightarrow> error + 'a envelope" where
  "classify res =
     (case res of
        Rejected m \<Rightarrow> Inl (TransportError (FetchFailed m))
      | Responded response \<Rightarrow>
          if \<not> ok response
          then Inl (TransportError (HttpStatus (status_code response) (statusText response)))
          else (case body response of
                  NotJson m \<Rightarrow> Inl (TransportError (BodyNotJson m))
                | Json data \<Rightarrow>
                    (case Header data of
                       Some (header # rest) \<Rightarrow>
                         if status header = ''Failed''
                         then Inl (TransportError (ApiError header))
                         else Inr data
                     | _ \<Rightarrow> Inr data)))"

definition aqs ::
  "'a platform \<Rightarrow> string \<Rightarrow> params \<Rightarrow> world \<Rightarrow> (error + 'a envelope) \<times> world" where
  "aqs p endpoint params w =
     (let w1 = enforceRateLimit (timer_late p) w;
          u = buildUrl endpoint params;
          w2 = console_error (''[AQS] Requesting: '' @ endpoint) w1;
          w3 = pass (round_trip p) (w2\<lparr>requests := requests w2 @ [u]\<rparr>)
      in (classify (fetch p u), w3))"


section \<open>Tool handlers\<close>

text \<open>
  A handler receives the argument object of the call and either returns a reply or
  throws. The argument object is as the handlers' type declares it: an object whose
  properties are strings; a missing property reads as \<open>None\<close>. A reply built by a
  handler has no \<open>isError\<close> property.
\<close>

type_synonym args = "string \<Rightarrow> string option"

record reply =
  content_text :: string
  isError :: "bool option"

type_synonym 'a handler = "'a platform \<Rightarrow> args \<Rightarrow> world \<Rightarrow> (error + reply) \<times> world"

record 'a tool =
  name :: string
  handler :: "'a handler"

definition text_reply :: "string \<Rightarrow> reply" where
  "text_reply t = \<lparr>content_text = t, isError = None\<rparr>"

definition nl :: string where
  "nl = [CHR 0x0A]"

text \<open>A missing argument where the source uses it as a string.\<close>

definition arg_string :: "string option \<Rightarrow> string" where
  "arg_string v = (case v of None \<Rightarrow> ''undefined'' | Some s \<Rightarrow> s)"




text \<open>\<open>JSON.stringify\<close> of a string, and of the object \<open>{ error: message }\<close> with indent 2.\<close>

definition json_escape :: "char \<Rightarrow> string" where
  "json_escape c =
     (let n = (of_char c :: nat)
      in if n = 0x22 then [CHR 0x5C, CHR 0x22]
         else if n = 0x5C then [CHR 0x5C, CHR 0x5C]
         else if n = 0x08 then [CHR 0x5C, CHR ''b'']
         else if n = 0x09 then [CHR 0x5C, CHR ''t'']
         else if n = 0x0A then [CHR 0x5C, CHR ''n'']
         else if n = 0x0C then [CHR 0x5C, CHR ''f'']
         else if n = 0x0D then [CHR 0x5C, CHR ''r'']
         else if n < 0x20
           then [CHR 0x5C, CHR ''u'', CHR ''0'', CHR ''0'',
                 (if n < 16 then CHR ''0'' else CHR ''1''),
                 (if n mod 16 < 10 then char_of (48 + n mod 16) else char_of (87 + n mod 16))]
         else [c])"

definition json_quote :: "string \<Rightarrow> string" where
  "json_quote s = [CHR 0x22] @ concat (map json_escape s) @ [CHR 0x22]"

definition json_error_object :: "string \<Rightarrow> string" where
  "json_error_object m =
     ''{'' @ nl @ ''  '' @ json_quote ''error'' @ '': '' @ json_quote m @ nl @ ''}''"




subsection \<open>Signup and availability\<close>




subsection \<open>The handler shapes shared by the other tools\<close>


definition dated_request ::
  "string \<Rightarrow> string list \<Rightarrow> 'a platform \<Rightarrow> args \<Rightarrow> world \<Rightarrow> (error + 'a envelope) \<times> world" where
  "dated_request endpoint location p params w =
     (case resolveCredentials p (params ''email'') (params ''key'') of
        Inl e \<Rightarrow> (Inl e, w)
      | Inr (email, key) \<Rightarrow>
     (case validateDateFormat (arg_string (params ''bdate'')) ''bdate'' of
        Inl e \<Rightarrow> (Inl e, w)
      | Inr u1 \<Rightarrow>
     (case validateDateFormat (arg_string (params ''edate'')) ''edate'' of
        Inl e \<Rightarrow> (Inl e, w)
      | Inr u2 \<Rightarrow>
     (case validateDateRange (arg_string (params ''bdate'')) (arg_string (params ''edate'')) of
        Inl e \<Rightarrow> (Inl e, w)
      | Inr u3 \<Rightarrow>
          aqs p endpoint
            ([(''email'', Some email), (''key'', Some key), (''param'', params ''param''),
              (''bdate'', params ''bdate''), (''edate'', params ''edate'')] @
             map (\<lambda>k. (k, params k)) location) w))))"

text \<open>The reply on success; an error propagates to the caller.\<close>

definition formatted ::
  "'a platform \<Rightarrow> string \<Rightarrow> (error + 'a envelope) \<times> world \<Rightarrow> (error + reply) \<times> world" where
  "formatted p endpoint rw =
     (case rw of
        (Inl e, w') \<Rightarrow> (Inl e, w')
      | (Inr response, w') \<Rightarrow> (Inr (text_reply (format_reply p endpoint response)), w'))"

text \<open>A \<open>try\<close>/\<open>catch\<close> around the whole handler body that answers with \<open>render message\<close>.\<close>

definition catching ::
  "(string \<Rightarrow> string) \<Rightarrow> 'a platform \<Rightarrow> (error + reply) \<times> world \<Rightarrow> (error + reply) \<times> world" where
  "catching render p rw =
     (case rw of
        (Inl e, w') \<Rightarrow> (Inr (text_reply (render (message (header_json p) e))), w')
      | (Inr r, w') \<Rightarrow> (Inr r, w'))"


text \<open>Sample data, daily and quarterly summaries: no \<open>try\<close>/\<open>catch\<close> in the handler.\<close>

definition throwing_handler :: "string \<Rightarrow> string list \<Rightarrow> 'a handler" where
  "throwing_handler endpoint location p params w =
     formatted p endpoint (dated_request endpoint location p params w)"

text \<open>Monitors: the handler catches and answers with a JSON object.\<close>

definition monitor_handler :: "string \<Rightarrow> string list \<Rightarrow> 'a handler" where
  "monitor_handler endpoint location p args w =
     catching json_error_object p
       (formatted p endpoint (dated_request endpoint location p args w))"

text \<open>Annual summaries: \<open>handleAnnualRequest\<close> catches and answers with \<open>Error: message\<close>.\<close>

definition handleAnnualRequest :: "string \<Rightarrow> string list \<Rightarrow> 'a handler" where
  "handleAnnualRequest endpoint location p params w =
     catching (\<lambda>m. ''Error: '' @ m) p
       (formatted p endpoint (dated_request endpoint location p params w))"


text \<open>Quarterly summaries answer with \<open>JSON.stringify(response, null, 2)\<close>.\<close>

definition quarterly_handler :: "string \<Rightarrow> string list \<Rightarrow> 'a handler" where
  "quarterly_handler endpoint location p params w =
     (case dated_request endpoint location p params w of
        (Inl e, w') \<Rightarrow> (Inl e, w')
      | (Inr response, w') \<Rightarrow> (Inr (text_reply (envelope_json p response)), w'))"


section \<open>The tool table and the dispatcher\<close>



definition monitorTools :: "'a tool list" where
  "monitorTools =
     [\<lparr>name = ''aqs_monitors_by_site'',
       handler = monitor_handler ''monitors/bySite'' [''state'', ''county'', ''site'']\<rparr>,
      \<lparr>name = ''aqs_monitors_by_county'',
       handler = monitor_handler ''monitors/byCounty'' [''state'', ''county'']\<rparr>,
      \<lparr>name = ''aqs_monitors_by_state'',
       handler = monitor_handler ''monitors/byState'' [''state'']\<rparr>,
      \<lparr>name = ''aqs_monitors_by_box'',
       handler = monitor_handler ''monitors/byBox'' [''minlat'', ''maxlat'', ''minlon'', ''maxlon'']\<rparr>,
      \<lparr>name = ''aqs_monitors_by_cbsa'',
       handler = monitor_handler ''monitors/byCBSA'' [''cbsa'']\<rparr>]"

definition sampleDataTools :: "'a tool list" where
  "sampleDataTools =
     [\<lparr>name = ''aqs_sample_data_by_site'',
       handler = throwing_handler ''sampleData/bySite'' [''state'', ''county'', ''site'']\<rparr>,
      \<lparr>name = ''aqs_sample_data_by_county'',
       handler = throwing_handler ''sampleData/byCounty'' [''state'', ''county'']\<rparr>,
      \<lparr>name = ''aqs_sample_data_by_state'',
       handler = throwing_handler ''sampleData/byState'' [''state'']\<rparr>,
      \<lparr>name = ''aqs_sample_data_by_box'',
       handler = throwing_handler ''sampleData/byBox'' [''minlat'', ''maxlat'', ''minlon'', ''maxlon'']\<rparr>,
      \<lparr>name = ''aqs_sample_data_by_cbsa'',
       handler = throwing_handler ''sampleData/byCBSA'' [''cbsa'']\<rparr>]"

definition dailyTools :: "'a tool list" where
  "dailyTools =
     [\<lparr>name = ''aqs_daily_summary_by_site'',
       handler = throwing_handler ''dailyData/bySite'' [''state'', ''county'', ''site'']\<rparr>,
      \<lparr>name = ''aqs_daily_summary_by_county'',
       handler = throwing_handler ''dailyData/byCounty'' [''state'', ''county'']\<rparr>,
      \<lparr>name = ''aqs_daily_summary_by_state'',
       handler = throwing_handler ''dailyData/byState'' [''state'']\<rparr>,
      \<lparr>name = ''aqs_daily_summary_by_box'',
       handler = throwing_handler ''dailyData/byBox'' [''minlat'', ''maxlat'', ''minlon'', ''maxlon'']\<rparr>,
      \<lparr>name = ''aqs_daily_summary_by_cbsa'',
       handler = throwing_handler ''dailyData/byCBSA'' [''cbsa'']\<rparr>]"

definition quarterlyTools :: "'a tool list" where
  "quarterlyTools =
     [\<lparr>name = ''aqs_quarterly_summary_by_site'',
       handler = quarterly_handler ''quarterlyData/bySite'' [''state'', ''county'', ''site'']\<rparr>,
      \<lparr>name = ''aqs_quarterly_summary_by_county'',
       handler = quarterly_handler ''quarterlyData/byCounty'' [''state'', ''county'']\<rparr>,
      \<lparr>name = ''aqs_quarterly_summary_by_state'',
       handler = quarterly_handler ''quarterlyData/byState'' [''state'']\<rparr>]"

definition annualTools :: "'a tool list" where
  "annualTools =
     [\<lparr>name = ''aqs_annual_summary_by_site'',
       handler = handleAnnualRequest ''annualData/bySite'' [''state'', ''county'', ''site'']\<rparr>,
      \<lparr>name = ''aqs_annual_summary_by_county'',
       handler = handleAnnualRequest ''annualData/byCounty'' [''state'', ''county'']\<rparr>,
      \<lparr>name = ''aqs_annual_summary_by_state'',
       handler = handleAnnualRequest ''annualData/byState'' [''state'']\<rparr>,
      \<lparr>name = ''aqs_annual_summary_by_box'',
       handler = handleAnnualRequest ''annualData/byBox'' [''minlat'', ''maxlat'', ''minlon'', ''maxlon'']\<rparr>,
      \<lparr>name = ''aqs_annual_summary_by_cbsa'',
       handler = handleAnnualRequest ''annualData/byCBSA'' [''cbsa'']\<rparr>]"





section \<open>Reading a request URL back\<close>

text \<open>
  What the receiving server reads out of a request URL: the fragment is not sent; the
  path is the text before the first \<open>?\<close>, and the query behind it is read as
  form-encoded name/value pairs, each given by its bytes.
\<close>

definition sent_part :: "string \<Rightarrow> string" where
  "sent_part u = takeWhile (\<lambda>c. c \<noteq> CHR ''#'') u"

definition url_path :: "string \<Rightarrow> string" where
  "url_path u = takeWhile (\<lambda>c. c \<noteq> CHR ''?'') (sent_part u)"

definition query_pairs :: "string \<Rightarrow> (string \<times> string) list" where
  "query_pairs u =
     map parse_pair
       (filter (\<lambda>piece. piece \<noteq> [])
          (split_amp (drop 1 (dropWhile (\<lambda>c. c \<noteq> CHR ''?'') (sent_part u)))))"


text \<open>The parameters \<open>buildUrl\<close> is meant to keep: those with a non-empty value.\<close>

definition non_empty_params :: "params \<Rightarrow> (string \<times> string) list" where
  "non_empty_params ps =
     concat (map (\<lambda>(k, v). case v of None \<Rightarrow> [] | Some s \<Rightarrow> if s = [] then [] else [(k, s)]) ps)"

text \<open>
  An endpoint path that brings no query or fragment of its own and that the URL parser
  leaves as it is written: the parsed URL, printed, is the base, a slash and the
  endpoint.
\<close>

definition plain_endpoint :: "string \<Rightarrow> bool" where
  "plain_endpoint ep =
     (CHR ''?'' \<notin> set ep \<and> CHR ''#'' \<notin> set ep
      \<and> URL_toString (URL_new (AQS_BASE_URL @ ''/'' @ ep)) = AQS_BASE_URL @ ''/'' @ ep)"

text \<open>Appending a list of pairs, one \<open>append\<close> after the other.\<close>

definition utf8_pair :: "string \<times> string \<Rightarrow> string \<times> string" where
  "utf8_pair kv = (utf8_of (fst kv), utf8_of (snd kv))"

definition append_all :: "(string \<times> string) list \<Rightarrow> URL \<Rightarrow> URL" where
  "append_all kvs u = foldl (\<lambda>u kv. searchParams_append (fst kv) (snd kv) u) u kvs"


section \<open>Reading a date token positionally\<close>

text \<open>
  The numbers a token \<open>YYYYMMDD\<close> denotes, read digit by digit. These are the
  reference values the validator's results are stated against.
\<close>

definition year_digits :: "string \<Rightarrow> nat" where
  "year_digits d =
     1000 * digit_val (d ! 0) + 100 * digit_val (d ! 1) + 10 * digit_val (d ! 2) + digit_val (d ! 3)"

definition month_digits :: "string \<Rightarrow> nat" where
  "month_digits d = 10 * digit_val (d ! 4) + digit_val (d ! 5)"

definition day_digits :: "string \<Rightarrow> nat" where
  "day_digits d = 10 * digit_val (d ! 6) + digit_val (d ! 7)"

definition eight_ascii_digits :: "string \<Rightarrow> bool" where
  "eight_ascii_digits d = (length d = 8 \<and> (\<forall>c \<in> set d. is_digit c))"

definition value_out_of_range :: "string \<Rightarrow> bool" where
  "value_out_of_range d =
     (month_digits d < 1 \<or> 12 < month_digits d \<or>
      day_digits d < 1 \<or> 31 < day_digits d \<or>
      year_digits d < 1900 \<or> 2100 < year_digits d)"

definition is_format_error :: "error + unit \<Rightarrow> bool" where
  "is_format_error r = (case r of Inl (InvalidDateFormat f d) \<Rightarrow> True | _ \<Rightarrow> False)"

definition is_value_error :: "error + unit \<Rightarrow> bool" where
  "is_value_error r = (case r of Inl (InvalidDateValue f p n) \<Rightarrow> True | _ \<Rightarrow> False)"

definition is_cross_year :: "error + unit \<Rightarrow> bool" where
  "is_cross_year r = (case r of Inl (CrossYearRange b e) \<Rightarrow> True | _ \<Rightarrow> False)"


section \<open>Vocabulary of the properties\<close>

text \<open>The tools that take a begin and an end date.\<close>

definition dateTools :: "'a tool list" where
  "dateTools = monitorTools @ sampleDataTools @ dailyTools @ quarterlyTools @ annualTools"

text \<open>
  A call fails with an error when the handler throws it, or catches it and answers with
  its message (as a JSON object for the monitor tools, after \<open>Error:\<close> for the annual
  tools).
\<close>

definition fails_with :: "'a platform \<Rightarrow> error \<Rightarrow> error + reply \<Rightarrow> bool" where
  "fails_with p e r =
     (r = Inl e
      \<or> r = Inr (text_reply (json_error_object (message (header_json p) e)))
      \<or> r = Inr (text_reply (''Error: '' @ message (header_json p) e)))"

definition is_transport_error :: "error \<Rightarrow> bool" where
  "is_transport_error e = (case e of TransportError f \<Rightarrow> True | _ \<Rightarrow> False)"

definition years_differ :: "args \<Rightarrow> bool" where
  "years_differ a = (take 4 (arg_string (a ''bdate'')) \<noteq> take 4 (arg_string (a ''edate'')))"

text \<open>The URLs a step handed to \<open>fetch\<close>: what the later log has beyond the earlier one.\<close>

definition issued :: "world \<Rightarrow> world \<Rightarrow> string list" where
  "issued w w' = drop (length (requests w)) (requests w')"



text \<open>
  The outcome of a handler that stopped in validation: the process state is as before,
  and the call failed with an error that is not a transport error; the error is
  \<open>CrossYearRange\<close> when the checks that run before the range check pass, that is, when
  the credentials resolve and both dates pass the format check.
\<close>

definition stopped_in_validation ::
  "'a platform \<Rightarrow> args \<Rightarrow> world \<Rightarrow> (error + reply) \<times> world \<Rightarrow> bool" where
  "stopped_in_validation p a w out =
     (snd out = w \<and>
      (\<exists>e. fails_with p e (fst out) \<and> \<not> is_transport_error e
        \<and> ((\<exists>c. resolveCredentials p (a ''email'') (a ''key'') = Inr c)
            \<and> validateDateFormat (arg_string (a ''bdate'')) ''bdate'' = Inr ()
            \<and> validateDateFormat (arg_string (a ''edate'')) ''edate'' = Inr ()
            \<longrightarrow> e = CrossYearRange (arg_string (a ''bdate'')) (arg_string (a ''edate'')))))"





section \<open>Sample inputs\<close>

text \<open>A platform whose server gives the same answer to every request.\<close>

definition sample_platform ::
  "string option \<Rightarrow> string option \<Rightarrow> unit fetch_result \<Rightarrow> unit platform" where
  "sample_platform e k res =
     \<lparr>AQS_EMAIL = e, AQS_API_KEY = k, fetch = (\<lambda>u. res), timer_late = 2, round_trip = 120,
      header_json = (\<lambda>h. ''{}''), envelope_json = (\<lambda>r. ''{}''),
      format_reply = (\<lambda>endpoint r. ''[]'')\<rparr>"


definition sample_args :: "(string \<times> string) list \<Rightarrow> args" where
  "sample_args kvs = map_of kvs"

definition success_header :: header where
  "success_header =
     \<lparr>status = ''Success'', request_time = ''2024-01-01T00:00:00-05:00'',
      url = ''https://aqs.epa.gov/data/api/list/states'', rows = Some 1\<rparr>"

definition failed_header :: header where
  "failed_header =
     \<lparr>status = ''Failed'', request_time = ''2024-01-01T00:00:00-05:00'',
      url = ''https://aqs.epa.gov/data/api/list/states'', rows = Some 0\<rparr>"

definition respond :: "nat \<Rightarrow> string \<Rightarrow> header list \<Rightarrow> unit fetch_result" where
  "respond code phrase hs =
     Responded \<lparr>status_code = code, statusText = phrase,
                body = Json \<lparr>Header = Some hs, Data = [()]\<rparr>\<rparr>"


section \<open>Date validation\<close>

lemma length_eight_cases:
  "length (xs::'a list) = 8 \<Longrightarrow> \<exists>a b c d e f g h. xs = [a, b, c, d, e, f, g, h]"
  by (auto simp: length_Suc_conv eval_nat_numeral)

lemma parseInt_four:
  "is_digit a \<Longrightarrow> is_digit b \<Longrightarrow> is_digit c \<Longrightarrow> is_digit d \<Longrightarrow>
   parseInt [a, b, c, d] =
     Some (1000 * digit_val a + 100 * digit_val b + 10 * digit_val c + digit_val d)"
  by (simp add: parseInt_def)

lemma parseInt_two:
  "is_digit a \<Longrightarrow> is_digit b \<Longrightarrow> parseInt [a, b] = Some (10 * digit_val a + digit_val b)"
  by (simp add: parseInt_def)

lemma matches_8_digits_iff: "matches_8_digits d = eight_ascii_digits d"
  by (simp add: matches_8_digits_def eight_ascii_digits_def list_all_iff)

lemma parsed_parts:
  assumes "eight_ascii_digits d"
  shows "parseInt (substring 0 4 d) = Some (year_digits d)"
    and "parseInt (substring 4 6 d) = Some (month_digits d)"
    and "parseInt (substring 6 8 d) = Some (day_digits d)"
proof -
  from assms obtain y1 y2 y3 y4 m1 m2 d1 d2 where d: "d = [y1, y2, y3, y4, m1, m2, d1, d2]"
    unfolding eight_ascii_digits_def using length_eight_cases by blast
  with assms have dg: "is_digit y1" "is_digit y2" "is_digit y3" "is_digit y4"
      "is_digit m1" "is_digit m2" "is_digit d1" "is_digit d2"
    by (simp_all add: eight_ascii_digits_def)
  show "parseInt (substring 0 4 d) = Some (year_digits d)"
    using dg by (simp add: d substring_def parseInt_four year_digits_def)
  show "parseInt (substring 4 6 d) = Some (month_digits d)"
    using dg by (simp add: d substring_def parseInt_two month_digits_def)
  show "parseInt (substring 6 8 d) = Some (day_digits d)"
    using dg by (simp add: d substring_def parseInt_two day_digits_def)
qed

lemma validateDateFormat_cases:
  "validateDateFormat d f =
     (if \<not> eight_ascii_digits d then Inl (InvalidDateFormat f d)
      else if month_digits d < 1 \<or> 12 < month_digits d
        then Inl (InvalidDateValue f Month (Some (month_digits d)))
      else if day_digits d < 1 \<or> 31 < day_digits d
        then Inl (InvalidDateValue f Day (Some (day_digits d)))
      else if year_digits d < 1900 \<or> 2100 < year_digits d
        then Inl (InvalidDateValue f Year (Some (year_digits d)))
      else Inr ())"
  by (simp add: validateDateFormat_def matches_8_digits_iff parsed_parts js_lt_def js_gt_def Let_def)

lemma feb31_digits:
  "eight_ascii_digits ''20240231''" "month_digits ''20240231'' = 2"
  "day_digits ''20240231'' = 31" "year_digits ''20240231'' = 2024"
  by (simp_all add: eight_ascii_digits_def is_digit_def month_digits_def day_digits_def
        year_digits_def digit_val_def)

text \<open>
  Claim C4. For every input string, the format check fails with \<open>InvalidDateFormat\<close>
  exactly when the string is not eight ASCII digits. For a string of eight digits it
  fails with \<open>InvalidDateValue\<close> exactly when the month digits are outside 1..12, the day
  digits outside 1..31 or the year digits outside 1900..2100, and it succeeds otherwise.
  Day 31 passes for every month, and \<open>20240231\<close> passes: there is no month-length or
  leap-year check.
\<close>

theorem validateDateFormat_spec:
  "is_format_error (validateDateFormat d f) = (\<not> eight_ascii_digits d)
   \<and> (eight_ascii_digits d \<longrightarrow>
        is_value_error (validateDateFormat d f) = value_out_of_range d)
   \<and> (validateDateFormat d f = Inr ()) = (eight_ascii_digits d \<and> \<not> value_out_of_range d)
   \<and> (eight_ascii_digits d \<and> day_digits d = 31 \<and> 1 \<le> month_digits d \<and> month_digits d \<le> 12
        \<and> 1900 \<le> year_digits d \<and> year_digits d \<le> 2100 \<longrightarrow> validateDateFormat d f = Inr ())
   \<and> validateDateFormat ''20240231'' f = Inr ()"
  by (auto simp add: validateDateFormat_cases is_format_error_def is_value_error_def
        value_out_of_range_def feb31_digits)

theorem validateDateFormat_spec_witness:
  "eight_ascii_digits ''20241301'' \<and> value_out_of_range ''20241301''
   \<and> is_value_error (validateDateFormat ''20241301'' ''bdate'')
   \<and> eight_ascii_digits ''20240431'' \<and> day_digits ''20240431'' = 31
   \<and> validateDateFormat ''20240431'' ''bdate'' = Inr ()"
proof -
  have a: "eight_ascii_digits ''20241301''"
    by (simp add: eight_ascii_digits_def is_digit_def)
  have b: "value_out_of_range ''20241301''"
    by (simp add: value_out_of_range_def month_digits_def digit_val_def)
  have c: "eight_ascii_digits ''20240431''"
    by (simp add: eight_ascii_digits_def is_digit_def)
  have d: "day_digits ''20240431'' = 31" "month_digits ''20240431'' = 4"
    "year_digits ''20240431'' = 2024"
    by (simp_all add: day_digits_def month_digits_def year_digits_def digit_val_def)
  show ?thesis
    using validateDateFormat_spec [of "''20241301''" "''bdate''"]
      validateDateFormat_spec [of "''20240431''" "''bdate''"] a b c d
    by simp
qed

section \<open>Date range\<close>

text \<open>
  Claim C5. For every pair of format-valid begin and end tokens, the range check fails
  with \<open>CrossYearRange\<close> exactly when the leading four characters of the two tokens
  differ, and succeeds otherwise. The order of the two dates within the year is not
  checked: \<open>20241231\<close> followed by \<open>20240101\<close> passes.
\<close>

theorem validateDateRange_spec:
  assumes "validateDateFormat bdate ''bdate'' = Inr ()"
    and "validateDateFormat edate ''edate'' = Inr ()"
  shows "is_cross_year (validateDateRange bdate edate) = (take 4 bdate \<noteq> take 4 edate)
    \<and> (validateDateRange bdate edate = Inr ()) = (take 4 bdate = take 4 edate)
    \<and> validateDateRange ''20241231'' ''20240101'' = Inr ()
    \<and> is_cross_year (validateDateRange ''20231231'' ''20240101'')"
  by (simp add: validateDateRange_def substring_def is_cross_year_def)

theorem validateDateRange_spec_witness:
  "validateDateFormat ''20230601'' ''bdate'' = Inr ()
   \<and> validateDateFormat ''20240601'' ''edate'' = Inr ()
   \<and> is_cross_year (validateDateRange ''20230601'' ''20240601'')
   \<and> validateDateFormat ''20241231'' ''bdate'' = Inr ()
   \<and> validateDateFormat ''20240101'' ''edate'' = Inr ()
   \<and> validateDateRange ''20241231'' ''20240101'' = Inr ()"
proof -
  have a: "validateDateFormat ''20230601'' ''bdate'' = Inr ()" by code_simp
  have b: "validateDateFormat ''20240601'' ''edate'' = Inr ()" by code_simp
  have c: "validateDateFormat ''20241231'' ''bdate'' = Inr ()" by code_simp
  have d: "validateDateFormat ''20240101'' ''edate'' = Inr ()" by code_simp
  show ?thesis
    using validateDateRange_spec [OF a b] validateDateRange_spec [OF c d] a b c d
    by simp
qed


section \<open>Credential resolution\<close>

lemma resolveCredentials_cases:
  "resolveCredentials p pe pk =
     (if \<not> truthy pe \<and> \<not> truthy (AQS_EMAIL p) then Inl (MissingCredential Email)
      else if \<not> truthy pk \<and> \<not> truthy (AQS_API_KEY p) then Inl (MissingCredential Key)
      else Inr (the (if truthy pe then pe else AQS_EMAIL p),
                the (if truthy pk then pk else AQS_API_KEY p)))"
  by (auto simp add: resolveCredentials_def getDefaultCredentials_def js_or_def truthy_def Let_def
        split: option.splits)

text \<open>
  Claim C6. A source yields a value when the value is defined and not empty. For each of
  the two fields, resolution returns the caller's value when the caller supplies one and
  the value of the environment variable (read when the call is made) otherwise. It fails
  with \<open>MissingCredential\<close> for a field exactly when neither source yields a value for
  it, the email being checked first, so that the error names the email when both fields
  are missing from both sources. No other error is raised.
\<close>

theorem resolveCredentials_spec:
  "(\<forall>e k. resolveCredentials p pe pk = Inr (e, k) \<longrightarrow>
       (if truthy pe then pe = Some e else AQS_EMAIL p = Some e) \<and>
       (if truthy pk then pk = Some k else AQS_API_KEY p = Some k))
   \<and> (resolveCredentials p pe pk = Inl (MissingCredential Email))
        = (\<not> truthy pe \<and> \<not> truthy (AQS_EMAIL p))
   \<and> (resolveCredentials p pe pk = Inl (MissingCredential Key))
        = ((truthy pe \<or> truthy (AQS_EMAIL p)) \<and> \<not> truthy pk \<and> \<not> truthy (AQS_API_KEY p))
   \<and> (\<exists>e k. resolveCredentials p pe pk = Inr (e, k))
        = ((truthy pe \<or> truthy (AQS_EMAIL p)) \<and> (truthy pk \<or> truthy (AQS_API_KEY p)))
   \<and> (\<forall>err. resolveCredentials p pe pk = Inl err \<longrightarrow> (\<exists>f. err = MissingCredential f))
   \<and> (\<not> truthy pe \<and> \<not> truthy (AQS_EMAIL p) \<and> \<not> truthy pk \<and> \<not> truthy (AQS_API_KEY p)
        \<longrightarrow> resolveCredentials p pe pk = Inl (MissingCredential Email))"
  by (auto simp add: resolveCredentials_cases truthy_def split: option.splits if_splits)

theorem resolveCredentials_spec_witness:
  "resolveCredentials (sample_platform None (Some ''envkey'') (Rejected [])) (Some ''a@b.com'') None
     = Inr (''a@b.com'', ''envkey'')
   \<and> truthy (Some ''a@b.com'') \<and> \<not> truthy None
   \<and> \<not> truthy (AQS_EMAIL (sample_platform None None (Rejected [])))
   \<and> \<not> truthy (AQS_API_KEY (sample_platform None None (Rejected [])))
   \<and> resolveCredentials (sample_platform None None (Rejected [])) None None
       = Inl (MissingCredential Email)"
  using resolveCredentials_spec
          [of "sample_platform None (Some ''envkey'') (Rejected [])" "Some ''a@b.com''" None]
    resolveCredentials_spec [of "sample_platform None None (Rejected [])" None None]
  by (auto simp add: sample_platform_def truthy_def)

text \<open>
  Claim C10. An empty string supplied by the caller counts as absent: resolution with an
  empty email (or key) is resolution without that argument, so the value comes from the
  environment variable. When the environment variable is missing or empty as well, the
  call fails with \<open>MissingCredential\<close>: for an empty email the error names the email; for
  an empty key it names the key, unless the email is missing too, which is reported
  first. An empty string is never returned.
\<close>

theorem empty_credential_is_absent:
  "resolveCredentials p (Some []) pk = resolveCredentials p None pk
   \<and> resolveCredentials p pe (Some []) = resolveCredentials p pe None
   \<and> (\<forall>e k. resolveCredentials p (Some []) pk = Inr (e, k) \<longrightarrow> AQS_EMAIL p = Some e)
   \<and> (\<forall>e k. resolveCredentials p pe (Some []) = Inr (e, k) \<longrightarrow> AQS_API_KEY p = Some k)
   \<and> (\<not> truthy (AQS_EMAIL p) \<longrightarrow>
        resolveCredentials p (Some []) pk = Inl (MissingCredential Email))
   \<and> (\<not> truthy (AQS_API_KEY p) \<longrightarrow>
        resolveCredentials p pe (Some []) =
          Inl (MissingCredential (if truthy pe \<or> truthy (AQS_EMAIL p) then Key else Email)))
   \<and> (\<forall>e k. resolveCredentials p pe pk = Inr (e, k) \<longrightarrow> e \<noteq> [] \<and> k \<noteq> [])"
  by (auto simp add: resolveCredentials_cases truthy_def split: option.splits if_splits)

theorem empty_credential_is_absent_witness:
  "resolveCredentials (sample_platform (Some ''env@x.org'') (Some ''envkey'') (Rejected []))
       (Some []) (Some [])
     = Inr (''env@x.org'', ''envkey'')
   \<and> \<not> truthy (AQS_EMAIL (sample_platform (Some []) None (Rejected [])))
   \<and> resolveCredentials (sample_platform (Some []) None (Rejected [])) (Some []) (Some ''k'')
       = Inl (MissingCredential Email)
   \<and> \<not> truthy (AQS_API_KEY (sample_platform (Some []) None (Rejected [])))
   \<and> resolveCredentials (sample_platform (Some []) None (Rejected [])) (Some ''a@b.com'') (Some [])
       = Inl (MissingCredential Key)"
proof -
  let ?P = "sample_platform (Some ''env@x.org'') (Some ''envkey'') (Rejected [])"
  let ?Q = "sample_platform (Some []) None (Rejected [])"
  note P = empty_credential_is_absent [where p = "?P" and pk = "Some []" and pe = None]
  have e1: "resolveCredentials ?P (Some []) (Some []) = resolveCredentials ?P None (Some [])"
    by (rule P [THEN conjunct1])
  have e2: "resolveCredentials ?P None (Some []) = resolveCredentials ?P None None"
    by (rule P [THEN conjunct2, THEN conjunct1])
  have e3: "resolveCredentials ?P None None = Inr (''env@x.org'', ''envkey'')"
    by (simp add: resolveCredentials_cases sample_platform_def truthy_def)
  have q1: "\<not> truthy (AQS_EMAIL ?Q)" and q2: "\<not> truthy (AQS_API_KEY ?Q)"
    by (simp_all add: sample_platform_def truthy_def)
  note Q = empty_credential_is_absent
             [where p = "?Q" and pk = "Some ''k''" and pe = "Some ''a@b.com''"]
  have e4: "resolveCredentials ?Q (Some []) (Some ''k'') = Inl (MissingCredential Email)"
    using Q [THEN conjunct2, THEN conjunct2, THEN conjunct2, THEN conjunct2, THEN conjunct1] q1
    by blast
  have e5: "resolveCredentials ?Q (Some ''a@b.com'') (Some []) = Inl (MissingCredential Key)"
    using Q [THEN conjunct2, THEN conjunct2, THEN conjunct2, THEN conjunct2, THEN conjunct2,
             THEN conjunct1] q2
    by (simp add: truthy_def)
  show ?thesis using e1 e2 e3 e4 e5 q1 q2 by simp
qed


section \<open>The request URL\<close>

lemma foldl_params:
  "foldl (\<lambda>u (key, value).
            case value of
              None \<Rightarrow> u
            | Some v \<Rightarrow> if v \<noteq> [] then searchParams_append key v u else u) u ps
   = append_all (non_empty_params ps) u"
proof (induction ps arbitrary: u)
  case Nil
  then show ?case by (simp add: non_empty_params_def append_all_def)
next
  case (Cons a ps)
  obtain k v where a: "a = (k, v)" by (cases a)
  show ?case
    by (cases v) (simp_all add: a Cons.IH non_empty_params_def append_all_def)
qed

lemma buildUrl_eq:
  "buildUrl ep ps =
     URL_toString (append_all (non_empty_params ps) (URL_new (AQS_BASE_URL @ ''/'' @ ep)))"
  by (simp add: buildUrl_def foldl_params)

lemma hex_digit_is_hex: "n < 16 \<Longrightarrow> is_hex (hex_digit n)"
  by (simp add: is_hex_def hex_digit_def Let_def)

lemma hex_val_hex_digit: "n < 16 \<Longrightarrow> hex_val (hex_digit n) = n"
  by (simp add: hex_val_def hex_digit_def Let_def)

lemma hex_digit_reserved:
  "n < 16 \<Longrightarrow> (of_char (hex_digit n) :: nat) \<notin> {35, 38, 61, 63}"
  by (auto simp add: hex_digit_def)

lemma of_char_div: "(of_char c :: nat) div 16 < 16"
proof -
  have "(of_char c :: nat) < 256" by simp
  then show ?thesis by presburger
qed

lemma of_char_mod16: "(of_char c :: nat) mod 16 < 16" by simp

lemma percent_reserved:
  "x \<in> set (percent c) \<Longrightarrow> (of_char x :: nat) \<notin> {35, 38, 61, 63}"
proof -
  assume "x \<in> set (percent c)"
  then have "x = CHR ''%'' \<or> x = hex_digit (of_char c div 16) \<or> x = hex_digit (of_char c mod 16)"
    by (simp add: percent_def)
  then show ?thesis
    using hex_digit_reserved [OF of_char_div [of c]] hex_digit_reserved [OF of_char_mod16 [of c]]
    by auto
qed

lemma urlencode_char_reserved:
  "x \<in> set (urlencode_char c) \<Longrightarrow> (of_char x :: nat) \<notin> {35, 38, 61, 63}"
proof (cases "is_alnum c \<or> c \<in> set ''*-._''")
  case True
  assume "x \<in> set (urlencode_char c)"
  with True have "x = c" by (simp add: urlencode_char_def)
  with True show ?thesis by (auto simp add: is_alnum_def Let_def)
next
  case False
  assume x: "x \<in> set (urlencode_char c)"
  show ?thesis
  proof (cases "c = CHR '' ''")
    case True
    with False x have "x = CHR ''+''" by (simp add: urlencode_char_def)
    then show ?thesis by simp
  next
    case sp: False
    with False x have "x \<in> set (percent c)"
      by (simp add: urlencode_char_def)
    then show ?thesis by (rule percent_reserved)
  qed
qed

lemma urldecode_plain: "c \<noteq> CHR ''+'' \<Longrightarrow> c \<noteq> CHR ''%'' \<Longrightarrow> urldecode (c # t) = c # urldecode t"
  by simp

lemma urldecode_plus: "urldecode (CHR ''+'' # t) = CHR '' '' # urldecode t"
  by simp

lemma urldecode_percent:
  "is_hex a \<Longrightarrow> is_hex b \<Longrightarrow>
   urldecode (CHR ''%'' # a # b # t) = char_of (16 * hex_val a + hex_val b) # urldecode t"
  by simp

lemma unreserved_plain:
  "is_alnum c \<or> c \<in> set ''*-._'' \<Longrightarrow> c \<noteq> CHR ''+'' \<and> c \<noteq> CHR ''%''"
  by (auto simp add: is_alnum_def Let_def)

lemma urldecode_encoded_char: "urldecode (urlencode_char c @ t) = c # urldecode t"
proof (cases "is_alnum c \<or> c \<in> set ''*-._''")
  case True
  then have "urlencode_char c = [c]" by (simp add: urlencode_char_def)
  then show ?thesis using unreserved_plain [OF True] urldecode_plain by simp
next
  case False
  show ?thesis
  proof (cases "c = CHR '' ''")
    case True
    with False have "urlencode_char c = ''+''" by (simp add: urlencode_char_def)
    then show ?thesis using True urldecode_plus by simp
  next
    case sp: False
    let ?a = "hex_digit (of_char c div 16)" and ?b = "hex_digit (of_char c mod 16)"
    from False sp have enc: "urlencode_char c = [CHR ''%'', ?a, ?b]"
      by (simp add: urlencode_char_def percent_def)
    have again: "char_of (16 * ((of_char c :: nat) div 16) + of_char c mod 16) = c"
      by simp
    have "urldecode (CHR ''%'' # ?a # ?b # t) = char_of (16 * hex_val ?a + hex_val ?b) # urldecode t"
      by (rule urldecode_percent) (simp_all add: hex_digit_is_hex of_char_div)
    then show ?thesis
      using again by (simp add: enc hex_val_hex_digit of_char_div del: urldecode.simps)
  qed
qed

lemma urldecode_urlencode_append: "urldecode (urlencode s @ t) = s @ urldecode t"
  by (induction s) (simp_all add: urlencode_def urldecode_encoded_char del: urldecode.simps)

lemma urldecode_urlencode: "urldecode (urlencode s) = s"
  using urldecode_urlencode_append [of s "[]"] by simp

lemma split_amp_plain: "CHR ''&'' \<notin> set x \<Longrightarrow> split_amp x = [x]"
  by (induction x) auto

lemma split_amp_append:
  "CHR ''&'' \<notin> set x \<Longrightarrow> split_amp (x @ CHR ''&'' # r) = x # split_amp r"
  by (induction x) auto

lemma split_join_amp:
  "xs \<noteq> [] \<Longrightarrow> \<forall>x \<in> set xs. CHR ''&'' \<notin> set x \<Longrightarrow> split_amp (join_amp xs) = xs"
proof (induction xs rule: join_amp.induct)
  case 1
  then show ?case by simp
next
  case (2 x)
  then show ?case by (simp add: split_amp_plain)
next
  case (3 x y ys)
  then show ?case by (simp add: split_amp_append)
qed

lemma urlencode_reserved:
  "x \<in> set (urlencode s) \<Longrightarrow>
   x \<noteq> CHR ''&'' \<and> x \<noteq> CHR ''='' \<and> x \<noteq> CHR ''?'' \<and> x \<noteq> CHR ''#''"
  using urlencode_char_reserved by (fastforce simp add: urlencode_def)

lemma piece_no_amp: "CHR ''&'' \<notin> set (query_piece kv)"
  using urlencode_reserved by (auto simp add: query_piece_def split: prod.splits)

lemma piece_no_hash: "CHR ''#'' \<notin> set (query_piece kv)"
  using urlencode_reserved by (auto simp add: query_piece_def split: prod.splits)

lemma piece_nonempty: "query_piece kv \<noteq> []"
  by (simp add: query_piece_def split: prod.splits)

lemma join_amp_set:
  "x \<in> set (join_amp xs) \<Longrightarrow> x = CHR ''&'' \<or> (\<exists>piece \<in> set xs. x \<in> set piece)"
  by (induction xs rule: join_amp.induct) auto

lemma serialized_no_hash: "CHR ''#'' \<notin> set (serialize_query ps)"
  using join_amp_set [of "CHR ''#''" "map query_piece ps"] piece_no_hash
  by (auto simp add: serialize_query_def)

lemma serialized_nonempty: "ps \<noteq> [] \<Longrightarrow> serialize_query ps \<noteq> []"
proof (cases ps)
  case Nil
  assume "ps \<noteq> []"
  with Nil show ?thesis by simp
next
  case (Cons a rest)
  then show ?thesis
    using piece_nonempty [of a] by (cases rest) (simp_all add: serialize_query_def)
qed

lemma parse_piece: "parse_pair (query_piece kv) = kv"
proof -
  have k: "\<forall>x \<in> set (urlencode (fst kv)). x \<noteq> CHR ''=''"
    using urlencode_reserved by blast
  have t: "takeWhile (\<lambda>c. c \<noteq> CHR ''='') (urlencode (fst kv) @ CHR ''='' # urlencode (snd kv))
             = urlencode (fst kv)"
    using k by (simp add: takeWhile_tail)
  have d: "dropWhile (\<lambda>c. c \<noteq> CHR ''='') (urlencode (fst kv) @ CHR ''='' # urlencode (snd kv))
             = CHR ''='' # urlencode (snd kv)"
    using k by (simp add: dropWhile_append3)
  show ?thesis
    using t d by (simp add: parse_pair_def query_piece_def case_prod_beta urldecode_urlencode del: urldecode.simps)
qed

lemma parse_serialized:
  "ps \<noteq> [] \<Longrightarrow>
   map parse_pair (filter (\<lambda>s. s \<noteq> []) (split_amp (serialize_query ps))) = ps"
proof -
  assume ne: "ps \<noteq> []"
  have "split_amp (join_amp (map query_piece ps)) = map query_piece ps"
    by (rule split_join_amp) (simp_all add: ne piece_no_amp)
  moreover have "filter (\<lambda>s. s \<noteq> []) (map query_piece ps) = map query_piece ps"
    by (simp add: piece_nonempty filter_map comp_def)
  ultimately show ?thesis
    by (simp add: serialize_query_def comp_def parse_piece)
qed

text \<open>What a reader finds in a printed URL whose path is free of \<open>?\<close> and \<open>#\<close>.\<close>

lemma read_printed:
  assumes b: "\<forall>x \<in> set b. x \<noteq> CHR ''?'' \<and> x \<noteq> CHR ''#''"
  shows "url_path (b @ CHR ''?'' # serialize_query ps
                     @ (case fr of None \<Rightarrow> [] | Some f \<Rightarrow> CHR ''#'' # f)) = b"
    and "ps \<noteq> [] \<Longrightarrow>
         query_pairs (b @ CHR ''?'' # serialize_query ps
                        @ (case fr of None \<Rightarrow> [] | Some f \<Rightarrow> CHR ''#'' # f)) = ps"
proof -
  let ?u = "b @ CHR ''?'' # serialize_query ps
              @ (case fr of None \<Rightarrow> [] | Some f \<Rightarrow> CHR ''#'' # f)"
  have h: "\<forall>x \<in> set (b @ CHR ''?'' # serialize_query ps). x \<noteq> CHR ''#''"
    using b serialized_no_hash [of ps] by auto
  have "takeWhile (\<lambda>c. c \<noteq> CHR ''#'')
          ((b @ CHR ''?'' # serialize_query ps) @ (case fr of None \<Rightarrow> [] | Some f \<Rightarrow> CHR ''#'' # f))
        = b @ CHR ''?'' # serialize_query ps"
    using h by (cases fr) (simp_all add: takeWhile_tail del: append_assoc)
  then have sent: "sent_part ?u = b @ CHR ''?'' # serialize_query ps"
    by (simp add: sent_part_def)
  have q: "\<forall>x \<in> set b. x \<noteq> CHR ''?''" using b by blast
  show "url_path ?u = b"
    using q by (simp add: url_path_def sent takeWhile_tail)
  assume ne: "ps \<noteq> []"
  have "dropWhile (\<lambda>c. c \<noteq> CHR ''?'') (b @ CHR ''?'' # serialize_query ps)
          = CHR ''?'' # serialize_query ps"
    using q by (simp add: dropWhile_append3)
  then show "query_pairs ?u = ps"
    using parse_serialized [OF ne] by (simp add: query_pairs_def sent)
qed

lemma read_plain:
  assumes "CHR ''?'' \<notin> set b" and "CHR ''#'' \<notin> set b"
  shows "url_path b = b" and "query_pairs b = []"
proof -
  have h: "\<forall>x \<in> set b. x \<noteq> CHR ''#''" and q: "\<forall>x \<in> set b. x \<noteq> CHR ''?''"
    using assms by blast+
  have sent: "sent_part b = b" using h by (simp add: sent_part_def)
  show "url_path b = b" using q by (simp add: url_path_def sent)
  have dw: "dropWhile (\<lambda>c. c \<noteq> CHR ''?'') b = []" using q by simp
  show "query_pairs b = []" unfolding query_pairs_def sent dw by simp
qed

text \<open>The printed path of a parsed URL is free of \<open>?\<close> and \<open>#\<close>: the parser escapes both.\<close>

lemma percent_encode_path_chars:
  "x \<in> set (percent_encode in_path_set s) \<Longrightarrow> x \<noteq> CHR ''?'' \<and> x \<noteq> CHR ''#''"
proof -
  assume "x \<in> set (percent_encode in_path_set s)"
  then obtain c where c: "c \<in> set s" "x \<in> set (if in_path_set c then percent c else [c])"
    by (auto simp add: percent_encode_def)
  show ?thesis
  proof (cases "in_path_set c")
    case True
    with c have "x \<in> set (percent c)" by simp
    from percent_reserved [OF this] show ?thesis by auto
  next
    case False
    with c have "x = c" by simp
    with False show ?thesis by (auto simp add: in_path_set_def in_query_set_def)
  qed
qed

lemma walk_path_set: "set (walk_path bs p) \<subseteq> set bs \<union> set p \<union> {[]}"
proof (induction bs arbitrary: p)
  case Nil
  then show ?case by auto
next
  case (Cons b rest)
  have bl: "set (butlast p) \<subseteq> set p" by (auto dest: in_set_butlastD)
  show ?case
  proof (cases "double_dot b")
    case True
    let ?q = "if rest = [] then butlast p @ [[]] else butlast p"
    have "set (walk_path rest ?q) \<subseteq> set rest \<union> set ?q \<union> {[]}" by (rule Cons.IH)
    moreover have "set ?q \<subseteq> set p \<union> {[]}" using bl by auto
    ultimately have "set (walk_path rest ?q) \<subseteq> set (b # rest) \<union> set p \<union> {[]}" by auto
    then show ?thesis using True by simp
  next
    case False
    show ?thesis
    proof (cases "single_dot b")
      case True
      let ?q = "if rest = [] then p @ [[]] else p"
      have "set (walk_path rest ?q) \<subseteq> set rest \<union> set ?q \<union> {[]}" by (rule Cons.IH)
      moreover have "set ?q \<subseteq> set p \<union> {[]}" by auto
      ultimately have "set (walk_path rest ?q) \<subseteq> set (b # rest) \<union> set p \<union> {[]}" by auto
      then show ?thesis using True False by simp
    next
      case sd: False
      have "set (walk_path rest (p @ [b])) \<subseteq> set rest \<union> set (p @ [b]) \<union> {[]}" by (rule Cons.IH)
      then have "set (walk_path rest (p @ [b])) \<subseteq> set (b # rest) \<union> set p \<union> {[]}" by auto
      then show ?thesis using sd False by simp
    qed
  qed
qed

lemma parse_path_chars:
  "seg \<in> set (parse_path t) \<Longrightarrow> x \<in> set seg \<Longrightarrow> x \<noteq> CHR ''?'' \<and> x \<noteq> CHR ''#''"
proof -
  assume seg: "seg \<in> set (parse_path t)" and x: "x \<in> set seg"
  obtain pieces where p: "parse_path t = walk_path (map (percent_encode in_path_set) pieces) []"
    by (simp add: parse_path_def)
  from seg p walk_path_set [of "map (percent_encode in_path_set) pieces" "[]"]
  have "seg \<in> set (map (percent_encode in_path_set) pieces) \<or> seg = []" by auto
  with x obtain s where "x \<in> set (percent_encode in_path_set s)" by auto
  then show ?thesis by (rule percent_encode_path_chars)
qed

lemma printed_path_chars:
  "x \<in> set (AQS_ORIGIN @ concat (map (\<lambda>seg. CHR ''/'' # seg) (path (URL_new s)))) \<Longrightarrow>
   x \<noteq> CHR ''?'' \<and> x \<noteq> CHR ''#''"
proof -
  assume "x \<in> set (AQS_ORIGIN @ concat (map (\<lambda>seg. CHR ''/'' # seg) (path (URL_new s))))"
  then consider "x \<in> set AQS_ORIGIN" | "x = CHR ''/''"
    | seg where "seg \<in> set (path (URL_new s))" "x \<in> set seg"
    by (fastforce split: if_splits)
  then show ?thesis
  proof cases
    case 1
    then show ?thesis by (auto simp add: AQS_ORIGIN_def)
  next
    case 2
    then show ?thesis by simp
  next
    case 3
    obtain t where "path (URL_new s) = parse_path t"
      by (simp add: URL_new_def Let_def)
    with 3 show ?thesis using parse_path_chars by metis
  qed
qed

lemma append_all_nonempty:
  "kvs \<noteq> [] \<Longrightarrow>
   append_all kvs u =
     u\<lparr>searchParams := searchParams u @ map utf8_pair kvs,
       query := Some (serialize_query (searchParams u @ map utf8_pair kvs))\<rparr>"
proof (induction kvs arbitrary: u)
  case Nil
  then show ?case by simp
next
  case (Cons kv rest)
  have step: "append_all (kv # rest) u = append_all rest (searchParams_append (fst kv) (snd kv) u)"
    by (simp add: append_all_def)
  have one: "searchParams_append (fst kv) (snd kv) u =
               u\<lparr>searchParams := searchParams u @ [utf8_pair kv],
                 query := Some (serialize_query (searchParams u @ [utf8_pair kv]))\<rparr>"
    using serialized_nonempty [of "searchParams u @ [utf8_pair kv]"]
    by (simp add: searchParams_append_def Let_def utf8_pair_def)
  show ?case
  proof (cases "rest = []")
    case True
    then show ?thesis using one by (simp add: append_all_def)
  next
    case False
    show ?thesis
      unfolding step Cons.IH [OF False] by (simp add: one)
  qed
qed

lemma append_all_empty: "append_all [] u = u"
  by (simp add: append_all_def)

lemma buildUrl_nonempty:
  assumes "non_empty_params ps \<noteq> []"
  shows "buildUrl ep ps =
     (AQS_ORIGIN @ concat (map (\<lambda>seg. CHR ''/'' # seg) (path (URL_new (AQS_BASE_URL @ ''/'' @ ep)))))
       @ CHR ''?'' # serialize_query (searchParams (URL_new (AQS_BASE_URL @ ''/'' @ ep))
                                       @ map utf8_pair (non_empty_params ps))
       @ (case fragment (URL_new (AQS_BASE_URL @ ''/'' @ ep)) of
            None \<Rightarrow> [] | Some f \<Rightarrow> CHR ''#'' # f)"
  by (simp add: buildUrl_eq append_all_nonempty [OF assms] URL_toString_def)

lemma query_pairs_appended:
  assumes "non_empty_params ps \<noteq> []"
  shows "query_pairs (buildUrl ep ps)
           = searchParams (URL_new (AQS_BASE_URL @ ''/'' @ ep))
               @ map utf8_pair (non_empty_params ps)"
proof -
  have b: "\<forall>x \<in> set (AQS_ORIGIN @ concat (map (\<lambda>seg. CHR ''/'' # seg)
                        (path (URL_new (AQS_BASE_URL @ ''/'' @ ep))))).
             x \<noteq> CHR ''?'' \<and> x \<noteq> CHR ''#''"
    using printed_path_chars by blast
  have ne: "searchParams (URL_new (AQS_BASE_URL @ ''/'' @ ep))
              @ map utf8_pair (non_empty_params ps) \<noteq> []"
    using assms by simp
  show ?thesis
    unfolding buildUrl_nonempty [OF assms] by (rule read_printed(2) [OF b ne])
qed

lemma of_char_char_of: "m < 256 \<Longrightarrow> (of_char (char_of (m :: nat)) :: nat) = m"
  by (simp add: of_char_of)

lemma utf8_of_unit_bytes:
  "x \<in> set (utf8_of_unit c) \<Longrightarrow> x = c \<or> 128 \<le> (of_char x :: nat)"
proof (cases "(of_char c :: nat) < 128")
  case True
  assume "x \<in> set (utf8_of_unit c)"
  with True show ?thesis by (simp add: utf8_of_unit_def)
next
  case False
  define n where "n = (of_char c :: nat)"
  have "n < 4 * 64" by (simp add: n_def)
  then have d: "n div 64 < 4" by (simp only: less_mult_imp_div_less)
  have m: "n mod 64 < 64" by simp
  have lead: "(of_char (char_of (0xC0 + n div 64)) :: nat) = 0xC0 + n div 64"
    using d by (intro of_char_char_of) simp
  have cont: "(of_char (char_of (0x80 + n mod 64)) :: nat) = 0x80 + n mod 64"
    using m by (intro of_char_char_of) simp
  assume "x \<in> set (utf8_of_unit c)"
  with False have "x = char_of (0xC0 + n div 64) \<or> x = char_of (0x80 + n mod 64)"
    by (simp add: utf8_of_unit_def n_def)
  then have "128 \<le> (of_char x :: nat)"
    using lead cont by auto
  then show ?thesis by simp
qed

lemma utf8_of_bytes:
  "x \<in> set (utf8_of s) \<Longrightarrow> x \<in> set s \<or> 128 \<le> (of_char x :: nat)"
  using utf8_of_unit_bytes by (fastforce simp add: utf8_of_def)

lemma utf8_of_marks:
  "CHR ''?'' \<notin> set s \<Longrightarrow> CHR ''?'' \<notin> set (utf8_of s)"
  "CHR ''#'' \<notin> set s \<Longrightarrow> CHR ''#'' \<notin> set (utf8_of s)"
  using utf8_of_bytes [of "CHR ''?''" s] utf8_of_bytes [of "CHR ''#''" s] by auto

lemma utf8_of_ascii: "\<forall>c \<in> set s. (of_char c :: nat) < 128 \<Longrightarrow> utf8_of s = s"
  by (induction s) (simp_all add: utf8_of_def utf8_of_unit_def)



lemma clean_input_set: "set (clean_input s) \<subseteq> set s"
proof -
  have "set (dropWhile c0_or_space (rev (dropWhile c0_or_space s)))
          \<subseteq> set (rev (dropWhile c0_or_space s))"
    by (auto dest: set_dropWhileD)
  moreover have "set (dropWhile c0_or_space s) \<subseteq> set s"
    by (auto dest: set_dropWhileD)
  ultimately have "set (dropWhile c0_or_space (rev (dropWhile c0_or_space s))) \<subseteq> set s"
    by auto
  then show ?thesis by (auto simp add: clean_input_def)
qed

lemma plain_parsed:
  assumes "plain_endpoint ep"
  shows "query (URL_new (AQS_BASE_URL @ ''/'' @ ep)) = None"
    and "fragment (URL_new (AQS_BASE_URL @ ''/'' @ ep)) = None"
    and "searchParams (URL_new (AQS_BASE_URL @ ''/'' @ ep)) = []"
    and "AQS_ORIGIN @ concat (map (\<lambda>seg. CHR ''/'' # seg) (path (URL_new (AQS_BASE_URL @ ''/'' @ ep))))
           = AQS_BASE_URL @ ''/'' @ ep"
proof -
  let ?s = "AQS_BASE_URL @ ''/'' @ ep"
  let ?t = "drop (length AQS_ORIGIN) (clean_input (utf8_of ?s))"
  have "CHR ''?'' \<notin> set ?s" "CHR ''#'' \<notin> set ?s"
    using assms by (simp_all add: plain_endpoint_def AQS_BASE_URL_def)
  then have s: "CHR ''?'' \<notin> set (utf8_of ?s)" "CHR ''#'' \<notin> set (utf8_of ?s)"
    using utf8_of_marks by blast+
  have "set ?t \<subseteq> set (utf8_of ?s)"
    using clean_input_set [of "utf8_of ?s"]
      set_drop_subset [of "length AQS_ORIGIN" "clean_input (utf8_of ?s)"]
    by blast
  with s have t: "CHR ''?'' \<notin> set ?t" "CHR ''#'' \<notin> set ?t" by blast+
  have "set (takeWhile (\<lambda>c. c \<noteq> CHR ''#'') ?t) \<subseteq> set ?t"
    using set_takeWhileD by fastforce
  with t have bh: "CHR ''?'' \<notin> set (takeWhile (\<lambda>c. c \<noteq> CHR ''#'') ?t)" by blast
  show q: "query (URL_new ?s) = None"
    using bh by (simp add: URL_new_def Let_def)
  show f: "fragment (URL_new ?s) = None"
    using t by (simp add: URL_new_def Let_def)
  show "searchParams (URL_new ?s) = []"
    using bh by (simp add: URL_new_def Let_def)
  have "URL_toString (URL_new ?s) = ?s"
    using assms by (simp add: plain_endpoint_def)
  then show "AQS_ORIGIN @ concat (map (\<lambda>seg. CHR ''/'' # seg) (path (URL_new ?s))) = ?s"
    using q f by (simp add: URL_toString_def)
qed

lemma buildUrl_plain:
  assumes "plain_endpoint ep"
  shows "buildUrl ep ps =
           AQS_BASE_URL @ ''/'' @ ep
             @ (if non_empty_params ps = [] then []
                else CHR ''?'' # serialize_query (map utf8_pair (non_empty_params ps)))"
proof (cases "non_empty_params ps = []")
  case True
  then show ?thesis
    using assms by (simp add: buildUrl_eq append_all_empty plain_endpoint_def)
next
  case False
  show ?thesis
    unfolding buildUrl_nonempty [OF False] plain_parsed [OF assms]
    using False by simp
qed

lemma plain_path_chars:
  assumes "plain_endpoint ep"
  shows "CHR ''?'' \<notin> set (AQS_BASE_URL @ ''/'' @ ep)" and "CHR ''#'' \<notin> set (AQS_BASE_URL @ ''/'' @ ep)"
  using assms by (simp_all add: plain_endpoint_def AQS_BASE_URL_def)

lemma query_pairs_buildUrl:
  assumes "plain_endpoint ep"
  shows "query_pairs (buildUrl ep ps) = map utf8_pair (non_empty_params ps)"
    and "url_path (buildUrl ep ps) = AQS_BASE_URL @ ''/'' @ ep"
proof -
  let ?b = "AQS_BASE_URL @ ''/'' @ ep"
  have b: "\<forall>x \<in> set ?b. x \<noteq> CHR ''?'' \<and> x \<noteq> CHR ''#''"
    using plain_path_chars [OF assms] by blast
  show "query_pairs (buildUrl ep ps) = map utf8_pair (non_empty_params ps)"
  proof (cases "non_empty_params ps = []")
    case True
    then show ?thesis
      using read_plain(2) [OF plain_path_chars [OF assms]]
      by (simp add: buildUrl_plain [OF assms])
  next
    case False
    from False have ne: "map utf8_pair (non_empty_params ps) \<noteq> []" by simp
    have "query_pairs (?b @ CHR ''?'' # serialize_query (map utf8_pair (non_empty_params ps))
                          @ (case None of None \<Rightarrow> [] | Some f \<Rightarrow> CHR ''#'' # f))
            = map utf8_pair (non_empty_params ps)"
      by (rule read_printed(2) [OF b ne])
    then show ?thesis
      using False by (simp add: buildUrl_plain [OF assms])
  qed
  show "url_path (buildUrl ep ps) = ?b"
  proof (cases "non_empty_params ps = []")
    case True
    then show ?thesis
      using read_plain(1) [OF plain_path_chars [OF assms]]
      by (simp add: buildUrl_plain [OF assms])
  next
    case False
    have "url_path (?b @ CHR ''?'' # serialize_query (map utf8_pair (non_empty_params ps))
                       @ (case None of None \<Rightarrow> [] | Some f \<Rightarrow> CHR ''#'' # f)) = ?b"
      by (rule read_printed(1) [OF b])
    then show ?thesis
      using False by (simp add: buildUrl_plain [OF assms])
  qed
qed

lemma non_empty_params_set:
  "set (non_empty_params ps) = {(k, v). (k, Some v) \<in> set ps \<and> v \<noteq> []}"
  by (induction ps) (auto simp add: non_empty_params_def split: option.splits if_splits)


lemma split_path_join:
  "CHR 0x5C \<notin> set r \<Longrightarrow> concat (map (\<lambda>seg. CHR ''/'' # seg) (split_path r)) = CHR ''/'' # r"
proof (induction r)
  case Nil
  then show ?case by simp
next
  case (Cons c cs)
  then have ih: "concat (map (\<lambda>seg. CHR ''/'' # seg) (split_path cs)) = CHR ''/'' # cs" by simp
  show ?case
  proof (cases "c = CHR ''/''")
    case True
    then show ?thesis using ih by simp
  next
    case False
    from Cons.prems have nb: "c \<noteq> CHR 0x5C" by auto
    obtain x xs where sp: "split_path cs = x # xs"
      by (cases "split_path cs") (use ih in auto)
    from ih sp have "CHR ''/'' # x @ concat (map (\<lambda>seg. CHR ''/'' # seg) xs) = CHR ''/'' # cs" by simp
    then show ?thesis using False nb sp by simp
  qed
qed

lemma split_path_chars: "seg \<in> set (split_path r) \<Longrightarrow> set seg \<subseteq> set r"
proof (induction r arbitrary: seg)
  case Nil
  then show ?case by simp
next
  case (Cons c cs)
  show ?case
  proof (cases "c = CHR ''/'' \<or> c = CHR 0x5C")
    case True
    with Cons.prems have "seg = [] \<or> seg \<in> set (split_path cs)" by auto
    then show ?thesis using Cons.IH by auto
  next
    case False
    show ?thesis
    proof (cases "split_path cs")
      case Nil
      with False Cons.prems show ?thesis by auto
    next
      case (Cons x xs)
      with False Cons.prems have "seg = c # x \<or> seg \<in> set xs" by auto
      moreover have "set x \<subseteq> set cs" using Cons.IH [of x] Cons by simp
      moreover have "seg \<in> set xs \<Longrightarrow> set seg \<subseteq> set cs" using Cons.IH [of seg] Cons by simp
      ultimately show ?thesis by auto
    qed
  qed
qed

lemma walk_path_plain:
  "\<forall>b \<in> set bs. \<not> double_dot b \<and> \<not> single_dot b \<Longrightarrow> walk_path bs p = p @ bs"
  by (induction bs arbitrary: p) simp_all

lemma percent_encode_id: "\<forall>c \<in> set s. \<not> P c \<Longrightarrow> percent_encode P s = s"
  by (induction s) (simp_all add: percent_encode_def)

lemma lower_char_dot:
  assumes "(if 65 \<le> (of_char c :: nat) \<and> (of_char c :: nat) \<le> 90
            then char_of ((of_char c :: nat) + 32) else c) = d"
    and "d = CHR ''.'' \<or> d = CHR ''%''"
  shows "c = d"
proof (cases "65 \<le> (of_char c :: nat) \<and> (of_char c :: nat) \<le> 90")
  case False
  with assms show ?thesis by simp
next
  case True
  with assms have "char_of ((of_char c :: nat) + 32) = d" by simp
  then have "(of_char d :: nat) = ((of_char c :: nat) + 32) mod 256"
    by (metis of_char_of)
  with True have "(of_char d :: nat) = (of_char c :: nat) + 32" by simp
  with True assms(2) show ?thesis by auto
qed

lemma no_dot_segment:
  assumes "CHR ''.'' \<notin> set seg" and "CHR ''%'' \<notin> set seg"
  shows "\<not> double_dot seg \<and> \<not> single_dot seg"
proof (cases seg)
  case Nil
  then show ?thesis by (simp add: double_dot_def single_dot_def lower_ascii_def)
next
  case (Cons c cs)
  have "\<And>d ds. lower_ascii seg = d # ds \<Longrightarrow> d = CHR ''.'' \<or> d = CHR ''%'' \<Longrightarrow> False"
  proof -
    fix d ds
    assume l: "lower_ascii seg = d # ds" and d: "d = CHR ''.'' \<or> d = CHR ''%''"
    from l Cons have "(if 65 \<le> (of_char c :: nat) \<and> (of_char c :: nat) \<le> 90
            then char_of ((of_char c :: nat) + 32) else c) = d"
      by (simp add: lower_ascii_def)
    from lower_char_dot [OF this d] have "c = d" .
    with d assms Cons show False by auto
  qed
  then show ?thesis
    by (auto simp add: double_dot_def single_dot_def)
qed

lemma clean_input_id:
  assumes "\<forall>c \<in> set s. \<not> c0_or_space c"
  shows "clean_input s = s"
proof -
  have t: "\<forall>c \<in> set s. \<not> tab_or_newline c"
    using assms by (auto simp add: c0_or_space_def tab_or_newline_def)
  have a: "dropWhile c0_or_space s = s"
    using assms by (cases s) simp_all
  have b: "dropWhile c0_or_space (rev s) = rev s"
    using assms by (cases "rev s") (simp, metis dropWhile.simps(2) list.set_intros(1) set_rev)
  show ?thesis
    using t by (simp add: clean_input_def a b)
qed


lemma quiet_code:
  assumes "is_alnum c \<or> c \<in> set ''/-_''"
  shows "(45 \<le> (of_char c :: nat) \<and> (of_char c :: nat) \<le> 57 \<and> (of_char c :: nat) \<noteq> 46)
         \<or> (65 \<le> (of_char c :: nat) \<and> (of_char c :: nat) \<le> 90)
         \<or> (of_char c :: nat) = 95
         \<or> (97 \<le> (of_char c :: nat) \<and> (of_char c :: nat) \<le> 122)"
proof (cases "is_alnum c")
  case True
  then show ?thesis by (simp add: is_alnum_def Let_def) arith
next
  case False
  with assms have "c = CHR ''/'' \<or> c = CHR ''-'' \<or> c = CHR ''_''" by simp
  then show ?thesis by auto
qed

lemma quiet_char:
  assumes "is_alnum c \<or> c \<in> set ''/-_''"
  shows "\<not> c0_or_space c" and "\<not> in_path_set c" and "c \<noteq> CHR ''?''" and "c \<noteq> CHR ''#''"
    and "c \<noteq> CHR 0x5C" and "c \<noteq> CHR ''.''" and "c \<noteq> CHR ''%''"
proof -
  note code = quiet_code [OF assms]
  show "\<not> c0_or_space c" using code by (simp add: c0_or_space_def) arith
  show q: "c \<noteq> CHR ''?''" using code by auto
  show h: "c \<noteq> CHR ''#''" using code by auto
  show "c \<noteq> CHR 0x5C" using code by auto
  show "c \<noteq> CHR ''.''" using code by auto
  show "c \<noteq> CHR ''%''" using code by auto
  have a: "c \<noteq> CHR 0x20" "c \<noteq> CHR 0x22" "c \<noteq> CHR 0x3C" "c \<noteq> CHR 0x3E" "c \<noteq> CHR 0x5E"
    "c \<noteq> CHR 0x60" "c \<noteq> CHR 0x7B" "c \<noteq> CHR 0x7D" "c \<noteq> CHR 0x3F" "c \<noteq> CHR 0x23"
    using code by auto
  have b: "\<not> in_c0_control_set c" using code by (simp add: in_c0_control_set_def) arith
  show "\<not> in_path_set c"
    using a b by (simp add: in_path_set_def in_query_set_def)
qed

lemma parsed_quietly:
  assumes r: "\<forall>c \<in> set r. is_alnum c \<or> c \<in> set ''/-_''"
  shows "URL_toString (URL_new (AQS_ORIGIN @ CHR ''/'' # r)) = AQS_ORIGIN @ CHR ''/'' # r"
proof -
  let ?s = "AQS_ORIGIN @ CHR ''/'' # r"
  have o: "\<forall>c \<in> set AQS_ORIGIN. \<not> c0_or_space c"
    by (simp add: AQS_ORIGIN_def c0_or_space_def)
  have sl: "\<not> c0_or_space CHR ''/''" by (simp add: c0_or_space_def)
  have s: "\<forall>c \<in> set ?s. \<not> c0_or_space c"
    using o sl r quiet_char(1) by auto
  have ascii: "\<forall>c \<in> set ?s. (of_char c :: nat) < 128"
  proof
    fix c assume "c \<in> set ?s"
    then consider "c \<in> set AQS_ORIGIN" | "c = CHR ''/''" | "c \<in> set r" by auto
    then show "(of_char c :: nat) < 128"
    proof cases
      case 1
      then show ?thesis by (auto simp add: AQS_ORIGIN_def)
    next
      case 2
      then show ?thesis by simp
    next
      case 3
      with r have "is_alnum c \<or> c \<in> set ''/-_''" by blast
      from quiet_code [OF this] show ?thesis by arith
    qed
  qed
  have t: "drop (length AQS_ORIGIN) (clean_input (utf8_of ?s)) = CHR ''/'' # r"
    unfolding utf8_of_ascii [OF ascii] clean_input_id [OF s] by simp
  have nq: "\<forall>c \<in> set (CHR ''/'' # r). c \<noteq> CHR ''?'' \<and> c \<noteq> CHR ''#''"
    using r quiet_char(3,4) by auto
  have tw1: "takeWhile (\<lambda>c. c \<noteq> CHR ''#'') (CHR ''/'' # r) = CHR ''/'' # r"
    using nq by (simp only: takeWhile_eq_all_conv) blast
  have tw2: "takeWhile (\<lambda>c. c \<noteq> CHR ''?'') (CHR ''/'' # r) = CHR ''/'' # r"
    using nq by (simp only: takeWhile_eq_all_conv) blast
  have inq: "CHR ''?'' \<notin> set (CHR ''/'' # r)" "CHR ''#'' \<notin> set (CHR ''/'' # r)"
    using nq by blast+
  have segs: "\<forall>seg \<in> set (split_path r). \<forall>c \<in> set seg. is_alnum c \<or> c \<in> set ''/-_''"
    using split_path_chars [of _ r] r by blast
  have enc: "map (percent_encode in_path_set) (split_path r) = split_path r"
  proof (rule map_idI)
    fix seg assume "seg \<in> set (split_path r)"
    with segs quiet_char(2) have "\<forall>c \<in> set seg. \<not> in_path_set c" by blast
    then show "percent_encode in_path_set seg = seg" by (rule percent_encode_id)
  qed
  have nodot: "\<forall>b \<in> set (split_path r). \<not> double_dot b \<and> \<not> single_dot b"
  proof
    fix b assume "b \<in> set (split_path r)"
    with segs quiet_char(6,7) have "CHR ''.'' \<notin> set b" "CHR ''%'' \<notin> set b" by blast+
    then show "\<not> double_dot b \<and> \<not> single_dot b" by (rule no_dot_segment)
  qed
  have pp: "parse_path (CHR ''/'' # r) = split_path r"
    using walk_path_plain [OF nodot, of "[]"] by (simp add: parse_path_def enc del: split_path.simps)
  have nb: "CHR 0x5C \<notin> set r" using r quiet_char(5) by blast
  have u: "URL_new ?s = \<lparr>path = split_path r, query = None, fragment = None, searchParams = []\<rparr>"
    unfolding URL_new_def t Let_def tw1 tw2 pp using inq by simp
  show ?thesis
    unfolding u using split_path_join [OF nb] by (simp add: URL_toString_def)
qed

lemma base_path_quiet: "\<forall>c \<in> set ''data/api/''. is_alnum c \<or> c \<in> set ''/-_''"
  by (simp add: is_alnum_def)

text \<open>
  An endpoint path written with letters, digits, slashes, hyphens and underscores only is
  left as written by the parser.
\<close>

lemma alnum_path_plain:
  assumes "list_all (\<lambda>c. is_alnum c \<or> c \<in> set ''/-_'') ep"
  shows "plain_endpoint ep"
proof -
  have ep: "\<forall>c \<in> set ep. is_alnum c \<or> c \<in> set ''/-_''"
    using assms by (simp only: list_all_iff)
  have r: "\<forall>c \<in> set (''data/api/'' @ ep). is_alnum c \<or> c \<in> set ''/-_''"
    using ep base_path_quiet by (simp only: set_append Un_iff) blast
  have s_eq: "AQS_BASE_URL @ ''/'' @ ep = AQS_ORIGIN @ CHR ''/'' # (''data/api/'' @ ep)"
    by (simp add: AQS_BASE_URL_def AQS_ORIGIN_def)
  have "URL_toString (URL_new (AQS_BASE_URL @ ''/'' @ ep)) = AQS_BASE_URL @ ''/'' @ ep"
    unfolding s_eq by (rule parsed_quietly [OF r])
  moreover have "CHR ''?'' \<notin> set ep" "CHR ''#'' \<notin> set ep"
    using ep quiet_char(3,4) by blast+
  ultimately show ?thesis by (simp only: plain_endpoint_def simp_thms)
qed

text \<open>
  For an endpoint path of that kind \<open>buildUrl\<close> can be computed without running the parser.
\<close>

lemma buildUrl_quiet [code]:
  "buildUrl ep ps =
     (if list_all (\<lambda>c. is_alnum c \<or> c \<in> set ''/-_'') ep
      then AQS_BASE_URL @ ''/'' @ ep
             @ (if non_empty_params ps = [] then []
                else CHR ''?'' # serialize_query (map utf8_pair (non_empty_params ps)))
      else URL_toString
             (foldl (\<lambda>u (key, value).
                       case value of
                         None \<Rightarrow> u
                       | Some v \<Rightarrow> if v \<noteq> [] then searchParams_append key v u else u)
                    (URL_new (AQS_BASE_URL @ ''/'' @ ep)) ps))"
proof (cases "list_all (\<lambda>c. is_alnum c \<or> c \<in> set ''/-_'') ep")
  case True
  show ?thesis
    using True buildUrl_plain [OF alnum_path_plain [OF True], of ps] by (simp only: if_True)
next
  case False
  then show ?thesis by (simp only: if_False buildUrl_def)
qed

text \<open>
  Claim C7, as amended. For every endpoint path and parameter object, \<open>buildUrl\<close> parses
  the base, a slash and the endpoint as a URL and appends to its query exactly the
  parameters whose value is defined and not empty, in their order; when there is one,
  the query read back from the result is what the parsed endpoint already carried,
  followed by those parameters. For an endpoint path that brings no query or fragment
  and that the URL parser leaves as written, the URL is the base, a slash and the
  endpoint, followed by \<open>?\<close> and those parameters only when there is one; read back, it
  has that path and exactly those name/value pairs. A parameter whose value is empty,
  missing or null contributes nothing.
\<close>

theorem buildUrl_spec:
  "buildUrl endpoint params =
     URL_toString (append_all (non_empty_params params)
                     (URL_new (AQS_BASE_URL @ ''/'' @ endpoint)))
   \<and> (non_empty_params params \<noteq> [] \<longrightarrow>
        query_pairs (buildUrl endpoint params)
          = searchParams (URL_new (AQS_BASE_URL @ ''/'' @ endpoint))
              @ map utf8_pair (non_empty_params params))
   \<and> (plain_endpoint endpoint \<longrightarrow>
        buildUrl endpoint params =
          AQS_BASE_URL @ ''/'' @ endpoint
            @ (if non_empty_params params = [] then []
               else CHR ''?'' # serialize_query (map utf8_pair (non_empty_params params)))
        \<and> url_path (buildUrl endpoint params) = AQS_BASE_URL @ ''/'' @ endpoint
        \<and> query_pairs (buildUrl endpoint params) = map utf8_pair (non_empty_params params)
        \<and> set (query_pairs (buildUrl endpoint params))
            = utf8_pair ` {(k, v). (k, Some v) \<in> set params \<and> v \<noteq> []})"
  using buildUrl_eq [of endpoint params] query_pairs_appended [of params endpoint]
    buildUrl_plain [of endpoint params] query_pairs_buildUrl [of endpoint params]
    non_empty_params_set [of params]
  by simp

theorem buildUrl_spec_witness:
  "plain_endpoint ''list/states''
   \<and> non_empty_params
        [(''email'', Some ''a@b.com''), (''state'', Some []), (''county'', None),
         (''key'', Some [CHR 0xE9, CHR ''k''])]
       \<noteq> []
   \<and> buildUrl ''list/states''
        [(''email'', Some ''a@b.com''), (''state'', Some []), (''county'', None),
         (''key'', Some [CHR 0xE9, CHR ''k''])]
       = ''https://aqs.epa.gov/data/api/list/states?email=a%40b.com&key=%C3%A9k''
   \<and> query_pairs (buildUrl ''list/states''
        [(''email'', Some ''a@b.com''), (''state'', Some []), (''county'', None),
         (''key'', Some [CHR 0xE9, CHR ''k''])])
       = [(''email'', ''a@b.com''), (''key'', [CHR 0xC3, CHR 0xA9, CHR ''k''])]
   \<and> query_pairs (buildUrl ''list/states''
        [(''email'', Some ''a@b.com''), (''state'', Some []), (''county'', None),
         (''key'', Some [CHR 0xE9, CHR ''k''])])
       = searchParams (URL_new (AQS_BASE_URL @ ''/'' @ ''list/states''))
         @ [(''email'', ''a@b.com''), (''key'', [CHR 0xC3, CHR 0xA9, CHR ''k''])]"
proof -
  let ?ps = "[(''email'', Some ''a@b.com''), (''state'', Some []), (''county'', None),
              (''key'', Some [CHR 0xE9, CHR ''k''])]"
  have a: "plain_endpoint ''list/states''"
    by (rule alnum_path_plain) (simp add: is_alnum_def)
  have c: "map utf8_pair (non_empty_params ?ps)
             = [(''email'', ''a@b.com''), (''key'', [CHR 0xC3, CHR 0xA9, CHR ''k''])]"
    by code_simp
  have n: "non_empty_params ?ps \<noteq> []"
    by (simp add: non_empty_params_def)
  have b: "buildUrl ''list/states'' ?ps
             = ''https://aqs.epa.gov/data/api/list/states?email=a%40b.com&key=%C3%A9k''"
    by code_simp
  note spec = buildUrl_spec [where endpoint = "''list/states''" and params = ?ps]
  have q: "query_pairs (buildUrl ''list/states'' ?ps) = map utf8_pair (non_empty_params ?ps)"
    using spec a by blast
  have r: "query_pairs (buildUrl ''list/states'' ?ps)
             = searchParams (URL_new (AQS_BASE_URL @ ''/'' @ ''list/states''))
                 @ map utf8_pair (non_empty_params ?ps)"
    using spec n by blast
  show ?thesis
    using a n b q r by (simp only: c simp_thms)
qed

text \<open>
  Claim C7 as it is written fails for an endpoint path that carries a query of its own:
  the parser reads \<open>draft=1\<close> as a parameter of the URL, so the request has a parameter
  that is no entry of the parameter object. A path with a dot segment leaves the base.
\<close>

theorem endpoint_with_query_counterexample:
  "buildUrl ''list/states?draft=1'' [(''email'', Some ''a@b.com'')]
     = ''https://aqs.epa.gov/data/api/list/states?draft=1&email=a%40b.com''
   \<and> query_pairs (buildUrl ''list/states?draft=1'' [(''email'', Some ''a@b.com'')])
       = [(''draft'', ''1''), (''email'', ''a@b.com'')]
   \<and> (''draft'', Some ''1'') \<notin> set [(''email'', Some ''a@b.com'')]
   \<and> buildUrl ''../v2/list'' [] = ''https://aqs.epa.gov/data/v2/list''
   \<and> url_path (buildUrl ''../v2/list'' []) \<noteq> AQS_BASE_URL @ ''/'' @ ''../v2/list''"
  by code_simp


section \<open>Classification of the response\<close>

lemma aqs_result: "fst (aqs p endpoint params w) = classify (fetch p (buildUrl endpoint params))"
  by (simp add: aqs_def Let_def)

lemma aqs_world:
  "snd (aqs p endpoint params w) =
     pass (round_trip p)
       ((console_error (''[AQS] Requesting: '' @ endpoint) (enforceRateLimit (timer_late p) w))
          \<lparr>requests := requests w @ [buildUrl endpoint params]\<rparr>)"
  by (simp add: aqs_def Let_def enforceRateLimit_def console_error_def sleep_def)

text \<open>
  Claim C8. Once \<open>fetch\<close> has delivered a response: a status outside 200..299 makes the
  transport fail with a transport error that carries the status code and the reason
  phrase; a success status with a parsed envelope whose header array is not empty and
  whose first header has the status \<open>Failed\<close> makes it fail with a transport error that
  carries that header; in every other case with a parsed envelope the envelope is
  returned as it was parsed.
\<close>

theorem aqs_classification:
  assumes "fetch p (buildUrl endpoint params) = Responded r"
  shows "(status_code r < 200 \<or> 299 < status_code r \<longrightarrow>
            fst (aqs p endpoint params w)
              = Inl (TransportError (HttpStatus (status_code r) (statusText r)))
            \<and> message (header_json p) (TransportError (HttpStatus (status_code r) (statusText r)))
              = ''AQS API request failed: HTTP '' @ show_nat (status_code r) @ '': '' @ statusText r)
    \<and> (\<forall>data h rest.
          200 \<le> status_code r \<and> status_code r \<le> 299 \<and> body r = Json data
          \<and> Header data = Some (h # rest) \<and> status h = ''Failed'' \<longrightarrow>
            fst (aqs p endpoint params w) = Inl (TransportError (ApiError h))
            \<and> message (header_json p) (TransportError (ApiError h))
              = ''AQS API request failed: AQS API Error: '' @ header_json p h)
    \<and> (\<forall>data.
          200 \<le> status_code r \<and> status_code r \<le> 299 \<and> body r = Json data
          \<and> \<not> (\<exists>h rest. Header data = Some (h # rest) \<and> status h = ''Failed'') \<longrightarrow>
            fst (aqs p endpoint params w) = Inr data)"
  using assms
  by (auto simp add: aqs_result classify_def ok_def message_def fault_message_def
        split: option.splits list.splits)


theorem aqs_classification_witness:
  "fst (aqs (sample_platform None None (respond 404 ''Not Found'' [])) ''list/states'' []
          (initial_world 1700000000000))
     = Inl (TransportError (HttpStatus 404 ''Not Found''))
   \<and> message (\<lambda>h. ''{}'') (TransportError (HttpStatus 404 ''Not Found''))
       = ''AQS API request failed: HTTP 404: Not Found''
   \<and> fst (aqs (sample_platform None None (respond 200 ''OK'' [failed_header])) ''list/states'' []
          (initial_world 1700000000000))
     = Inl (TransportError (ApiError failed_header))
   \<and> fst (aqs (sample_platform None None (respond 200 ''OK'' [success_header])) ''list/states'' []
          (initial_world 1700000000000))
     = Inr \<lparr>Header = Some [success_header], Data = [()]\<rparr>"
proof -
  let ?W = "initial_world 1700000000000"
  let ?A = "sample_platform None None (respond 404 ''Not Found'' [])"
  let ?B = "sample_platform None None (respond 200 ''OK'' [failed_header])"
  let ?C = "sample_platform None None (respond 200 ''OK'' [success_header])"
  have fa: "fetch ?A (buildUrl ''list/states'' []) =
      Responded \<lparr>status_code = 404, statusText = ''Not Found'',
                 body = Json \<lparr>Header = Some [], Data = [()]\<rparr>\<rparr>"
    by (simp add: sample_platform_def respond_def)
  have fb: "fetch ?B (buildUrl ''list/states'' []) =
      Responded \<lparr>status_code = 200, statusText = ''OK'',
                 body = Json \<lparr>Header = Some [failed_header], Data = [()]\<rparr>\<rparr>"
    by (simp add: sample_platform_def respond_def)
  have fc: "fetch ?C (buildUrl ''list/states'' []) =
      Responded \<lparr>status_code = 200, statusText = ''OK'',
                 body = Json \<lparr>Header = Some [success_header], Data = [()]\<rparr>\<rparr>"
    by (simp add: sample_platform_def respond_def)
  have a: "fst (aqs ?A ''list/states'' [] ?W) = Inl (TransportError (HttpStatus 404 ''Not Found''))"
    using aqs_classification [OF fa, of ?W, THEN conjunct1] by simp
  have b: "fst (aqs ?B ''list/states'' [] ?W) = Inl (TransportError (ApiError failed_header))"
    using aqs_classification [OF fb, of ?W, THEN conjunct2, THEN conjunct1]
    by (simp add: failed_header_def)
  have c: "fst (aqs ?C ''list/states'' [] ?W) = Inr \<lparr>Header = Some [success_header], Data = [()]\<rparr>"
    using aqs_classification [OF fc, of ?W, THEN conjunct2, THEN conjunct2]
    by (simp add: success_header_def)
  have m: "message (\<lambda>h. ''{}'') (TransportError (HttpStatus 404 ''Not Found''))
       = ''AQS API request failed: HTTP 404: Not Found''"
    by code_simp
  show ?thesis by (intro conjI a b c m)
qed


section \<open>Authentication on outgoing requests\<close>



lemma issued_same: "issued w w = []"
  by (simp add: issued_def)































section \<open>Validation comes before the transport\<close>

lemma credential_error_kind:
  "resolveCredentials p a b = Inl e \<Longrightarrow> \<not> is_transport_error e"
  by (auto simp add: resolveCredentials_cases is_transport_error_def split: if_splits)

lemma format_error_kind:
  "validateDateFormat d f = Inl e \<Longrightarrow> \<not> is_transport_error e"
  by (auto simp add: validateDateFormat_cases is_transport_error_def split: if_splits)

lemma range_check_fails:
  "take 4 b \<noteq> take 4 ed \<Longrightarrow> validateDateRange b ed = Inl (CrossYearRange b ed)"
  by (simp add: validateDateRange_def substring_def)

lemma dated_request_cross_year:
  assumes "years_differ args"
  shows "\<exists>e. dated_request ep loc p args w = (Inl e, w) \<and> \<not> is_transport_error e
    \<and> ((\<exists>c. resolveCredentials p (args ''email'') (args ''key'') = Inr c)
        \<and> validateDateFormat (arg_string (args ''bdate'')) ''bdate'' = Inr ()
        \<and> validateDateFormat (arg_string (args ''edate'')) ''edate'' = Inr ()
        \<longrightarrow> e = CrossYearRange (arg_string (args ''bdate'')) (arg_string (args ''edate'')))"
proof (cases "resolveCredentials p (args ''email'') (args ''key'')")
  case (Inl e)
  then show ?thesis
    using credential_error_kind [OF Inl] by (simp add: dated_request_def)
next
  case cred: (Inr c)
  obtain em k where c: "c = (em, k)" by (cases c)
  show ?thesis
  proof (cases "validateDateFormat (arg_string (args ''bdate'')) ''bdate''")
    case (Inl e)
    then show ?thesis
      using cred c format_error_kind [OF Inl] by (simp add: dated_request_def)
  next
    case b: (Inr u)
    show ?thesis
    proof (cases "validateDateFormat (arg_string (args ''edate'')) ''edate''")
      case (Inl e)
      then show ?thesis
        using cred c b format_error_kind [OF Inl] by (simp add: dated_request_def)
    next
      case ed: (Inr u')
      have "validateDateRange (arg_string (args ''bdate'')) (arg_string (args ''edate''))
              = Inl (CrossYearRange (arg_string (args ''bdate'')) (arg_string (args ''edate'')))"
        using assms by (simp add: years_differ_def range_check_fails)
      then show ?thesis
        using cred c b ed by (simp add: dated_request_def is_transport_error_def)
    qed
  qed
qed

lemma throwing_cross_year:
  "years_differ args \<Longrightarrow>
   stopped_in_validation p args w (throwing_handler ep loc p args w)"
  using dated_request_cross_year [of args ep loc p w]
  by (auto simp add: stopped_in_validation_def throwing_handler_def formatted_def fails_with_def)

lemma quarterly_cross_year:
  "years_differ args \<Longrightarrow>
   stopped_in_validation p args w (quarterly_handler ep loc p args w)"
  using dated_request_cross_year [of args ep loc p w]
  by (auto simp add: stopped_in_validation_def quarterly_handler_def fails_with_def)

lemma monitor_cross_year:
  "years_differ args \<Longrightarrow>
   stopped_in_validation p args w (monitor_handler ep loc p args w)"
  using dated_request_cross_year [of args ep loc p w]
  by (auto simp add: stopped_in_validation_def monitor_handler_def formatted_def catching_def
        fails_with_def)

lemma annual_cross_year:
  "years_differ args \<Longrightarrow>
   stopped_in_validation p args w (handleAnnualRequest ep loc p args w)"
  using dated_request_cross_year [of args ep loc p w]
  by (auto simp add: stopped_in_validation_def handleAnnualRequest_def formatted_def catching_def
        fails_with_def)

lemma dateTools_cross_year:
  "tool \<in> set dateTools \<Longrightarrow> years_differ args \<Longrightarrow>
   stopped_in_validation p args w (handler tool p args w)"
  by (auto simp add: dateTools_def monitorTools_def sampleDataTools_def dailyTools_def
        quarterlyTools_def annualTools_def
        throwing_cross_year quarterly_cross_year monitor_cross_year annual_cross_year)

text \<open>
  Claim C9. For every date-taking tool and every call whose begin and end dates differ
  in their year (the leading four characters), the handler leaves the process state as
  it was: the throttle marker is not touched and no URL is handed to \<open>fetch\<close>. The call
  fails in validation, by a thrown error or by the handler's own error reply. The error
  is \<open>CrossYearRange\<close> whenever the checks that run before the range check pass, that
  is, the credentials resolve and both dates pass the format check; this is the case
  for \<open>bdate = 20230601\<close>, \<open>edate = 20240601\<close>.
\<close>

theorem cross_year_stops_before_transport:
  assumes "tool \<in> set dateTools" and "years_differ args"
  shows "snd (handler tool p args w) = w
    \<and> lastRequestTime (snd (handler tool p args w)) = lastRequestTime w
    \<and> issued w (snd (handler tool p args w)) = []
    \<and> (\<exists>e. fails_with p e (fst (handler tool p args w)) \<and> \<not> is_transport_error e
         \<and> ((\<exists>c. resolveCredentials p (args ''email'') (args ''key'') = Inr c)
             \<and> validateDateFormat (arg_string (args ''bdate'')) ''bdate'' = Inr ()
             \<and> validateDateFormat (arg_string (args ''edate'')) ''edate'' = Inr ()
             \<longrightarrow> e = CrossYearRange (arg_string (args ''bdate'')) (arg_string (args ''edate''))))"
  using dateTools_cross_year [OF assms, of p w]
  by (simp add: stopped_in_validation_def issued_same)


theorem cross_year_stops_before_transport_witness:
  "\<lparr>name = ''aqs_sample_data_by_site'',
     handler = throwing_handler ''sampleData/bySite'' [''state'', ''county'', ''site'']\<rparr>
      \<in> set (dateTools :: unit tool list)
   \<and> years_differ (sample_args [(''bdate'', ''20230601''), (''edate'', ''20240601'')])
   \<and> throwing_handler ''sampleData/bySite'' [''state'', ''county'', ''site'']
        (sample_platform (Some ''a@b.com'') (Some ''k'') (respond 200 ''OK'' [success_header]))
        (sample_args [(''bdate'', ''20230601''), (''edate'', ''20240601'')])
        (initial_world 1700000000000)
       = (Inl (CrossYearRange ''20230601'' ''20240601''), initial_world 1700000000000)"
proof -
  let ?t = "\<lparr>name = ''aqs_sample_data_by_site'',
     handler = throwing_handler ''sampleData/bySite'' [''state'', ''county'', ''site'']\<rparr> :: unit tool"
  let ?P = "sample_platform (Some ''a@b.com'') (Some ''k'') (respond 200 ''OK'' [success_header])"
  let ?a = "sample_args [(''bdate'', ''20230601''), (''edate'', ''20240601'')]"
  let ?W = "initial_world 1700000000000"
  have a: "?t \<in> set dateTools"
    by (simp add: dateTools_def sampleDataTools_def)
  have b: "years_differ ?a"
    by (simp add: years_differ_def sample_args_def arg_string_def)
  have c: "snd (handler ?t ?P ?a ?W) = ?W"
    by (rule cross_year_stops_before_transport [OF a b, THEN conjunct1])
  have d: "fst (throwing_handler ''sampleData/bySite'' [''state'', ''county'', ''site''] ?P ?a ?W)
             = Inl (CrossYearRange ''20230601'' ''20240601'')"
    by code_simp
  have "throwing_handler ''sampleData/bySite'' [''state'', ''county'', ''site''] ?P ?a ?W
          = (Inl (CrossYearRange ''20230601'' ''20240601''), ?W)"
    using c d by (simp add: prod_eq_iff)
  then show ?thesis using a b by simp
qed


section \<open>Errors at the dispatcher\<close>
























section \<open>The throttle\<close>























end
